theory Spec2Isabelle
  imports Complex_Main
begin

section \<open>Arrays\<close>

text \<open>
  The notebook \<^verbatim>\<open>Swaption.ipynb\<close> works on numpy arrays of floats. They are modelled as
  lists of reals, matrices as lists of rows; the arithmetic is the exact arithmetic of the
  reals. Elementwise operations are \<open>map\<close> and \<open>map2\<close>; the arrays of one run all have
  the length \<open>N\<close> of the forward curve (predicate \<open>valid_params\<close> below), so numpy's
  broadcasting does not come into play.
\<close>

type_synonym vec = "real list"
type_synonym mat = "real list list"

fun cumprod_from :: "real \<Rightarrow> vec \<Rightarrow> vec" where
  "cumprod_from a [] = []"
| "cumprod_from a (x # xs) = (a * x) # cumprod_from (a * x) xs"

definition cumprod :: "vec \<Rightarrow> vec" where
  \<comment> \<open>\<^verbatim>\<open>np.cumprod\<close>\<close>
  "cumprod xs = cumprod_from 1 xs"

definition np_max :: "vec \<Rightarrow> real" where
  \<comment> \<open>\<^verbatim>\<open>np.max\<close>; it raises on an empty array, which the callers below exclude before calling\<close>
  "np_max xs = fold max (tl xs) (hd xs)"

definition matvec :: "mat \<Rightarrow> vec \<Rightarrow> vec" where
  \<comment> \<open>\<^verbatim>\<open>A.dot(v)\<close> and \<^verbatim>\<open>A @ v\<close>\<close>
  "matvec A v = map (\<lambda>row. sum_list (map2 (*) row v)) A"

definition outer :: "vec \<Rightarrow> vec \<Rightarrow> mat" where
  \<comment> \<open>\<^verbatim>\<open>np.outer\<close>\<close>
  "outer a b = map (\<lambda>x. map (\<lambda>y. x * y) b) a"

definition tril :: "mat \<Rightarrow> mat" where
  \<comment> \<open>\<^verbatim>\<open>np.tril\<close>: the entries above the diagonal become 0\<close>
  "tril A = map (\<lambda>(i, row). map (\<lambda>(j, a). if j \<le> i then a else 0) (enumerate 0 row))
                (enumerate 0 A)"

definition linalg_norm :: "vec \<Rightarrow> real" where
  \<comment> \<open>\<^verbatim>\<open>np.linalg.norm\<close>\<close>
  "linalg_norm v = sqrt (sum_list (map (\<lambda>a. a\<^sup>2) v))"

definition np_mean :: "vec \<Rightarrow> real option" where
  \<comment> \<open>\<^verbatim>\<open>np.mean\<close>; on an empty array numpy divides 0 by 0 and yields nan\<close>
  "np_mean xs = (if xs = [] then None else Some (sum_list xs / real (length xs)))"

section \<open>Swap rate\<close>

text \<open>
  \<^verbatim>\<open>
  def R_swap(logL, delta):
      L = np.exp(logL)
      discount_prod = np.prod(1 + delta * L)
      numer = 1 - 1.0 / discount_prod
      denom = delta * np.sum(1.0 / np.cumprod(1 + delta * L))
      return numer / denom
  \<close>
  For \<open>delta > 0\<close> and a non-empty curve both divisors are positive
  (lemmas \<open>prod_list_ge_one\<close> and \<open>annuity_sum_pos\<close> below).
\<close>

definition R_swap :: "vec \<Rightarrow> real \<Rightarrow> real" where
  "R_swap logL delta =
     (let L = map exp logL;
          discount_prod = prod_list (map (\<lambda>l. 1 + delta * l) L);
          numer = 1 - 1 / discount_prod;
          denom = delta * sum_list (map (\<lambda>p. 1 / p) (cumprod (map (\<lambda>l. 1 + delta * l) L)))
      in numer / denom)"

section \<open>Errors and external routines\<close>

text \<open>
  The Python exceptions the notebook can raise. \<open>InvalidValue\<close> is not an exception:
  numpy evaluates \<open>0.0 / 0.0\<close> to nan (and a non-zero float over \<open>0.0\<close> to an infinity)
  with only a warning. The reals have neither value, so the model stops with
  \<open>InvalidValue\<close> where the source would continue on nan or an infinity.
\<close>

datatype error =
    RuntimeError string
  | ValueError
  | IndexError
  | ZeroDivisionError
  | LinAlgError
  | InvalidValue

text \<open>The \<^verbatim>\<open>OptimizeResult\<close> of \<^verbatim>\<open>scipy.optimize.minimize\<close>: the fields the notebook reads.\<close>

record OptimizeResult =
  res_success :: bool
  res_message :: string
  res_x :: vec

text \<open>
  The library routines the notebook calls and whose code is not part of the repository are
  parameters of the model: the two scipy optimisers (\<^verbatim>\<open>minimize(fun, x0, method='L-BFGS-B')\<close>
  and \<^verbatim>\<open>minimize(fun, x0, constraints=cons, method='SLSQP')\<close>, the latter with its one
  equality constraint as second argument), \<^verbatim>\<open>scipy.linalg.cholesky(rho, lower=False)\<close>
  (\<open>None\<close> when it raises \<^verbatim>\<open>LinAlgError\<close>), and numpy's global random generator, whose
  state \<open>'g\<close> is passed explicitly: \<^verbatim>\<open>np.random.choice([-1,1], size=N)\<close> and
  \<^verbatim>\<open>np.random.rand()\<close>.
\<close>

record 'g external =
  minimize_lbfgsb :: "(vec \<Rightarrow> real) \<Rightarrow> vec \<Rightarrow> OptimizeResult"
  minimize_slsqp :: "(vec \<Rightarrow> real) \<Rightarrow> (vec \<Rightarrow> real) \<Rightarrow> vec \<Rightarrow> OptimizeResult"
  cholesky_upper :: "mat \<Rightarrow> mat option"
  random_choice :: "nat \<Rightarrow> 'g \<Rightarrow> vec \<times> 'g"
  random_rand :: "'g \<Rightarrow> real \<times> 'g"

section \<open>Projection onto the barrier\<close>

text \<open>
  \<^verbatim>\<open>
  def project_to_barrier(x, delta, Rup):
      cons = {'type': 'eq',
              'fun': lambda logL: np.log(R_swap(logL, delta)) - np.log(Rup)}
      res = minimize(fun=lambda logL: np.sum((logL - x)**2), x0=x.copy(),
                     constraints=cons, method='SLSQP')
      if not res.success:
          raise RuntimeError("Projection failed: " + res.message)
      return res.x
  \<close>
\<close>

definition project_to_barrier :: "'g external \<Rightarrow> vec \<Rightarrow> real \<Rightarrow> real \<Rightarrow> error + vec" where
  "project_to_barrier ext x delta Rup =
     (let cons = (\<lambda>logL. ln (R_swap logL delta) - ln Rup);
          res = minimize_slsqp ext (\<lambda>logL. sum_list (map (\<lambda>d. d\<^sup>2) (map2 (-) logL x))) cons x
      in if \<not> res_success res
         then Inl (RuntimeError (''Projection failed: '' @ res_message res))
         else Inr (res_x res))"

text \<open>
  The fast projection computes \<open>ln L[0]\<close> from the tail \<open>y = ln L[1..N-1]\<close>, once in the
  objective and once more, by the same lines, in the final reconstruction:
  \<^verbatim>\<open>
      Lpi_tail = np.exp(y)
      one_plus = 1 + delta * Lpi_tail
      revcp = np.cumprod(one_plus[::-1])[::-1]
      prods = revcp
      sum_term = 1 + prods.sum()
      numerator = Rup * sum_term + 1
      denominator = np.prod(one_plus)
      # Formule 6.13 pour ln L0 (soustraction hors du log)
      logL0 = np.log(numerator / denominator) - 1.0 / delta
      logLpi = np.empty(N)
      logLpi[0] = logL0
      logLpi[1:] = y
  \<close>
\<close>

definition logL0_of_tail :: "vec \<Rightarrow> real \<Rightarrow> real \<Rightarrow> real" where
  "logL0_of_tail y delta Rup =
     (let Lpi_tail = map exp y;
          one_plus = map (\<lambda>l. 1 + delta * l) Lpi_tail;
          revcp = rev (cumprod (rev one_plus));
          prods = revcp;
          sum_term = 1 + sum_list prods;
          numerator = Rup * sum_term + 1;
          denominator = prod_list one_plus
      in ln (numerator / denominator) - 1 / delta)"

definition logLpi_of_tail :: "vec \<Rightarrow> real \<Rightarrow> real \<Rightarrow> vec" where
  "logLpi_of_tail y delta Rup = logL0_of_tail y delta Rup # y"

definition objective :: "vec \<Rightarrow> real \<Rightarrow> real \<Rightarrow> vec \<Rightarrow> real" where
  "objective x delta Rup y =
     sum_list (map (\<lambda>d. d\<^sup>2) (map2 (-) (logLpi_of_tail y delta Rup) x))"

text \<open>
  \<^verbatim>\<open>
  def project_to_barrier2(x, delta, Rup):
      N = x.shape[0]
      def objective(y): ...
      y0 = x[1:].copy()
      res = minimize(objective, y0, method='L-BFGS-B')
      if not res.success:
          raise RuntimeError("Projection2 failed: " + res.message)
      y_opt = res.x
      ...
      return logLpi
  \<close>
  \<^verbatim>\<open>logLpi[0] = logL0\<close> raises on an empty \<open>x\<close>, \<^verbatim>\<open>1.0 / delta\<close> raises for
  \<open>delta = 0\<close> (both already in the first evaluation of the objective), and
  \<^verbatim>\<open>logLpi[1:] = y_opt\<close> raises when the optimiser's result has not \<open>N - 1\<close> entries.
\<close>

definition project_to_barrier2 :: "'g external \<Rightarrow> vec \<Rightarrow> real \<Rightarrow> real \<Rightarrow> error + vec" where
  "project_to_barrier2 ext x delta Rup =
     (if x = [] then Inl IndexError
      else if delta = 0 then Inl ZeroDivisionError
      else
        let y0 = tl x;
            res = minimize_lbfgsb ext (objective x delta Rup) y0
        in if \<not> res_success res
           then Inl (RuntimeError (''Projection2 failed: '' @ res_message res))
           else
             let y_opt = res_x res
             in if length y_opt \<noteq> length x - 1 then Inl ValueError
                else Inr (logLpi_of_tail y_opt delta Rup))"

section \<open>Model parameters and setup\<close>

text \<open>
  The notebook's global parameters (\<^verbatim>\<open>N, T0, delta, M, K, Rup, L0, sigma, beta, n_paths\<close>)
  and the values derived from them once, before the simulation:
  \<^verbatim>\<open>
  h     = T0 / M
  times = np.arange(N) * delta + T0 - N * delta
  rho   = np.exp(-beta * np.abs(times[:, None] - times[None, :]))
  U     = cholesky(rho, lower=False)
  P0_T0 = 1.0 / (1 + delta * L0[0])
  full_mat  = rho * np.outer(sigma, sigma)
  drift_mat = np.tril(full_mat)
  \<close>
\<close>

record params =
  p_N :: nat
  p_T0 :: real
  p_delta :: real
  p_M :: nat
  p_K :: real
  p_Rup :: real
  p_L0 :: vec
  p_sigma :: vec
  p_beta :: real
  p_n_paths :: nat

definition h_of :: "params \<Rightarrow> real" where
  "h_of p = p_T0 p / real (p_M p)"

definition times_of :: "params \<Rightarrow> vec" where
  "times_of p = map (\<lambda>i. real i * p_delta p + p_T0 p - real (p_N p) * p_delta p) [0..<p_N p]"

definition rho :: "params \<Rightarrow> mat" where
  "rho p = map (\<lambda>ti. map (\<lambda>tj. exp (- p_beta p * \<bar>ti - tj\<bar>)) (times_of p)) (times_of p)"

definition P0_T0 :: "params \<Rightarrow> real" where
  "P0_T0 p = 1 / (1 + p_delta p * p_L0 p ! 0)"

definition full_mat :: "params \<Rightarrow> mat" where
  "full_mat p = map2 (map2 (*)) (rho p) (outer (p_sigma p) (p_sigma p))"

definition drift_mat :: "params \<Rightarrow> mat" where
  "drift_mat p = tril (full_mat p)"

section \<open>One time step of one path\<close>

text \<open>
  \<^verbatim>\<open>
  sigma_max = np.max(sigma)
  coarse_bound = (sigma_max**2 * h * N - 0.5 * sigma_max**2 * h + sigma_max * np.sqrt(h * N))
  \<close>
\<close>

definition coarse_bound :: "params \<Rightarrow> real" where
  "coarse_bound p =
     (let sigma_max = np_max (p_sigma p)
      in sigma_max\<^sup>2 * h_of p * real (p_N p) - 0.5 * sigma_max\<^sup>2 * h_of p
         + sigma_max * sqrt (h_of p * real (p_N p)))"

text \<open>
  \<^verbatim>\<open>
  L = np.exp(logL)
  v         = delta * L / (1 + delta * L)
  drift_vec = drift_mat.dot(v) * h - 0.5 * sigma**2 * h
  \<close>
\<close>

definition drift_vec :: "params \<Rightarrow> vec \<Rightarrow> vec" where
  "drift_vec p logL =
     (let L = map exp logL;
          v = map (\<lambda>l. p_delta p * l / (1 + p_delta p * l)) L
      in map2 (-) (map (\<lambda>a. a * h_of p) (matvec (drift_mat p) v))
                  (map (\<lambda>s. 0.5 * s\<^sup>2 * h_of p) (p_sigma p)))"

text \<open>\<^verbatim>\<open>diffusion = sigma * np.sqrt(h) * (U @ xi)\<close>\<close>

definition diffusion :: "params \<Rightarrow> mat \<Rightarrow> vec \<Rightarrow> vec" where
  "diffusion p U xi = map2 (*) (map (\<lambda>s. s * sqrt (h_of p)) (p_sigma p)) (matvec U xi)"

text \<open>
  The three lines every branch of the step ends with:
  \<^verbatim>\<open>
  xi        = np.random.choice([-1,1], size=N)
  diffusion = sigma * np.sqrt(h) * (U @ xi)
  logL    += drift_vec + diffusion
  \<close>
\<close>

definition euler_update :: "'g external \<Rightarrow> params \<Rightarrow> mat \<Rightarrow> vec \<Rightarrow> vec \<Rightarrow> 'g \<Rightarrow> vec \<times> 'g" where
  "euler_update ext p U dv logL g =
     (let (xi, g') = random_choice ext (p_N p) g
      in (map2 (+) logL (map2 (+) dv (diffusion p U xi)), g'))"

text \<open>The coarse check: \<^verbatim>\<open>np.max(logL) + coarse_bound < np.log(Rup)\<close>.\<close>

definition coarse_check :: "params \<Rightarrow> vec \<Rightarrow> bool" where
  "coarse_check p logL \<longleftrightarrow> np_max logL + coarse_bound p < ln (p_Rup p)"

text \<open>
  The fine check:
  \<^verbatim>\<open>
  idx   = np.arange(N)
  drift_worst = (idx + 1) * sigma * sigma_max * h
  diff_worst  = sigma * np.sqrt((N - idx) * h)
  L_pert      = L_vec * (1 + drift_worst + diff_worst)
  logL_pert   = np.log(L_pert)
  if R_swap(logL_pert, delta) < Rup:
  \<close>
\<close>

definition logL_pert :: "params \<Rightarrow> vec \<Rightarrow> vec" where
  "logL_pert p logL =
     (let L_vec = map exp logL;
          sigma_max = np_max (p_sigma p);
          idx = [0..<p_N p];
          drift_worst = map2 (\<lambda>i s. (real i + 1) * s * sigma_max * h_of p) idx (p_sigma p);
          diff_worst = map2 (\<lambda>i s. s * sqrt ((real (p_N p) - real i) * h_of p)) idx (p_sigma p);
          L_pert = map2 (*) L_vec (map2 (\<lambda>a b. 1 + a + b) drift_worst diff_worst)
      in map ln L_pert)"

definition fine_check :: "params \<Rightarrow> vec \<Rightarrow> bool" where
  "fine_check p logL \<longleftrightarrow> R_swap (logL_pert p logL) (p_delta p) < p_Rup p"

text \<open>
  The boundary zone:
  \<^verbatim>\<open>
  logL_pi = project_to_barrier2(logL, delta, Rup)
  dist    = np.linalg.norm(logL_pi - logL)
  lambda_k = np.sqrt(N) * coarse_bound
  if np.random.rand() < lambda_k / (dist + lambda_k):
      knocked_out = True
      exit_step   = k
      break
  logL    += (lambda_k / dist) * (logL_pi - logL)
  xi        = np.random.choice([-1,1], size=N)
  diffusion = sigma * np.sqrt(h) * (U @ xi)
  logL    += drift_vec + diffusion
  \<close>
  Neither division is guarded. When \<open>dist + lambda_k = 0\<close> the quotient is nan and the
  comparison with it is false, so the path is not knocked out; the next line then divides
  by \<open>dist = 0\<close>, and the model returns \<open>InvalidValue\<close>.
\<close>

datatype step_result = Continue vec | Break

definition lambda_k :: "params \<Rightarrow> real" where
  "lambda_k p = sqrt (real (p_N p)) * coarse_bound p"

definition dist_to :: "vec \<Rightarrow> vec \<Rightarrow> real" where
  "dist_to logL_pi logL = linalg_norm (map2 (-) logL_pi logL)"

definition boundary_zone ::
  "'g external \<Rightarrow> params \<Rightarrow> mat \<Rightarrow> vec \<Rightarrow> 'g \<Rightarrow> error + step_result \<times> 'g" where
  "boundary_zone ext p U logL g =
     (case project_to_barrier2 ext logL (p_delta p) (p_Rup p) of
        Inl e \<Rightarrow> Inl e
      | Inr logL_pi \<Rightarrow>
          let dist = dist_to logL_pi logL;
              (u, g') = random_rand ext g
          in if dist + lambda_k p \<noteq> 0 \<and> u < lambda_k p / (dist + lambda_k p)
             then Inr (Break, g')
             else if dist = 0 then Inl InvalidValue
             else
               let pulled = map2 (+) logL
                              (map (\<lambda>d. (lambda_k p / dist) * d) (map2 (-) logL_pi logL));
                   (logL', g'') = euler_update ext p U (drift_vec p logL) pulled g'
               in Inr (Continue logL', g''))"

text \<open>The body of \<^verbatim>\<open>for k in range(M)\<close>.\<close>

definition step :: "'g external \<Rightarrow> params \<Rightarrow> mat \<Rightarrow> vec \<Rightarrow> 'g \<Rightarrow> error + step_result \<times> 'g" where
  "step ext p U logL g =
     (if coarse_check p logL then
        (let (logL', g') = euler_update ext p U (drift_vec p logL) logL g
         in Inr (Continue logL', g'))
      else if fine_check p logL then
        (let (logL', g') = euler_update ext p U (drift_vec p logL) logL g
         in Inr (Continue logL', g'))
      else boundary_zone ext p U logL g)"

section \<open>One path\<close>

text \<open>
  What the loop over \<open>k\<close> leaves behind for the lines after it: the final \<open>logL\<close>,
  \<open>knocked_out\<close> and \<open>exit_step\<close> (initially \<open>False\<close> and \<open>M\<close>).
\<close>

record path_end =
  pe_logL :: vec
  pe_knocked_out :: bool
  pe_exit_step :: nat

text \<open>\<open>path_loop ext p U n k logL g\<close> runs the steps \<open>k, k + 1, \<dots>, k + n - 1\<close>.\<close>

fun path_loop ::
  "'g external \<Rightarrow> params \<Rightarrow> mat \<Rightarrow> nat \<Rightarrow> nat \<Rightarrow> vec \<Rightarrow> 'g \<Rightarrow> error + path_end \<times> 'g" where
  "path_loop ext p U 0 k logL g =
     Inr (\<lparr>pe_logL = logL, pe_knocked_out = False, pe_exit_step = p_M p\<rparr>, g)"
| "path_loop ext p U (Suc n) k logL g =
     (case step ext p U logL g of
        Inl e \<Rightarrow> Inl e
      | Inr (Break, g') \<Rightarrow>
          Inr (\<lparr>pe_logL = logL, pe_knocked_out = True, pe_exit_step = k\<rparr>, g')
      | Inr (Continue logL', g') \<Rightarrow> path_loop ext p U n (Suc k) logL' g')"

text \<open>
  \<^verbatim>\<open>
  logL = np.log(L0)
  knocked_out = False
  exit_step = M
  sigma_max = np.max(sigma)      # raises on an empty sigma
  coarse_bound = ...
  for k in range(M): ...
  \<close>
\<close>

definition simulate_path ::
  "'g external \<Rightarrow> params \<Rightarrow> mat \<Rightarrow> 'g \<Rightarrow> error + path_end \<times> 'g" where
  "simulate_path ext p U g =
     (if p_sigma p = [] then Inl ValueError
      else path_loop ext p U (p_M p) 0 (map ln (p_L0 p)) g)"

section \<open>The Monte Carlo run\<close>

text \<open>
  \<^verbatim>\<open>
  payoffs    = np.zeros(n_paths)
  exit_times = np.zeros(n_paths)
  discount_sums = np.zeros(n_paths)
  prices = np.zeros(n_paths)
  \<close>
\<close>

record arrays =
  payoffs :: vec
  exit_times :: vec
  discount_sums :: vec
  prices :: vec

definition zeros :: "nat \<Rightarrow> arrays" where
  "zeros n = \<lparr>payoffs = replicate n 0, exit_times = replicate n 0,
              discount_sums = replicate n 0, prices = replicate n 0\<rparr>"

text \<open>
  The lines after the loop over \<open>k\<close>, for path \<open>i\<close>:
  \<^verbatim>\<open>
  exit_times[p] = exit_step * h
  if not knocked_out:
      payoffs[p] = delta * max(R_swap(logL, delta) - K, 0)
      L_end = np.exp(logL)
      discount_curve = np.cumprod(1.0/(1 + delta * L_end))
      discount_sums[p] = np.sum(discount_curve)
      prices[p] = P0_T0 * (discount_sums[p] * payoffs[p])
  \<close>
\<close>

definition record_path :: "params \<Rightarrow> nat \<Rightarrow> path_end \<Rightarrow> arrays \<Rightarrow> arrays" where
  "record_path p i pe a =
     (let a1 = a\<lparr>exit_times := (exit_times a)[i := real (pe_exit_step pe) * h_of p]\<rparr>
      in if \<not> pe_knocked_out pe then
           let payoff = p_delta p * max (R_swap (pe_logL pe) (p_delta p) - p_K p) 0;
               L_end = map exp (pe_logL pe);
               discount_curve = cumprod (map (\<lambda>l. 1 / (1 + p_delta p * l)) L_end);
               discount_sum = sum_list discount_curve
           in a1\<lparr>payoffs := (payoffs a1)[i := payoff],
                 discount_sums := (discount_sums a1)[i := discount_sum],
                 prices := (prices a1)[i := P0_T0 p * (discount_sum * payoff)]\<rparr>
         else a1)"

text \<open>\<^verbatim>\<open>for p in range(n_paths)\<close>, over the list of path indices still to run.\<close>

fun mc_loop ::
  "'g external \<Rightarrow> params \<Rightarrow> mat \<Rightarrow> nat list \<Rightarrow> arrays \<Rightarrow> 'g \<Rightarrow> error + arrays \<times> 'g" where
  "mc_loop ext p U [] a g = Inr (a, g)"
| "mc_loop ext p U (i # is) a g =
     (case simulate_path ext p U g of
        Inl e \<Rightarrow> Inl e
      | Inr (pe, g') \<Rightarrow> mc_loop ext p U is (record_path p i pe a) g')"

text \<open>
  The whole notebook up to the result cell: setup (\<^verbatim>\<open>h = T0 / M\<close> raises for \<open>M = 0\<close>,
  \<^verbatim>\<open>cholesky\<close> may raise, \<^verbatim>\<open>L0[0]\<close> raises on an empty curve), the loop over the paths, and
  \<^verbatim>\<open>
  price           = np.mean(prices)
  mean_exit_time  = np.mean(exit_times)
  \<close>
\<close>

definition monte_carlo :: "'g external \<Rightarrow> params \<Rightarrow> 'g \<Rightarrow> error + real \<times> real" where
  "monte_carlo ext p g =
     (if p_M p = 0 then Inl ZeroDivisionError
      else case cholesky_upper ext (rho p) of
        None \<Rightarrow> Inl LinAlgError
      | Some U \<Rightarrow>
          (if p_L0 p = [] then Inl IndexError
           else (case mc_loop ext p U [0..<p_n_paths p] (zeros (p_n_paths p)) g of
              Inl e \<Rightarrow> Inl e
            | Inr (a, g') \<Rightarrow>
                (case (np_mean (prices a), np_mean (exit_times a)) of
                   (Some price, Some mean_exit_time) \<Rightarrow> Inr (price, mean_exit_time)
                 | _ \<Rightarrow> Inl InvalidValue))))"

section \<open>The second Monte Carlo run\<close>

text \<open>
  After the result cell the notebook runs the loop over the paths a second time (the cell
  under the heading on the method of weak order \<open>1 / 2\<close>). The coarse check, the fine check
  and the Euler update are those of the first loop; the boundary zone is
  \<^verbatim>\<open>
  logL        = project_to_barrier2(logL, delta, Rup)
  exit_step   = k
  knocked_out = True
  break
  \<close>
  so a step either continues with a new state or stops the path at the projection.
\<close>

datatype step_result_half = Continue_half vec | Break_half vec

definition step_half ::
  "'g external \<Rightarrow> params \<Rightarrow> mat \<Rightarrow> vec \<Rightarrow> 'g \<Rightarrow> error + step_result_half \<times> 'g" where
  "step_half ext p U logL g =
     (if coarse_check p logL then
        (let (logL', g') = euler_update ext p U (drift_vec p logL) logL g
         in Inr (Continue_half logL', g'))
      else if fine_check p logL then
        (let (logL', g') = euler_update ext p U (drift_vec p logL) logL g
         in Inr (Continue_half logL', g'))
      else (case project_to_barrier2 ext logL (p_delta p) (p_Rup p) of
              Inl e \<Rightarrow> Inl e
            | Inr logL_pi \<Rightarrow> Inr (Break_half logL_pi, g)))"

fun path_loop_half ::
  "'g external \<Rightarrow> params \<Rightarrow> mat \<Rightarrow> nat \<Rightarrow> nat \<Rightarrow> vec \<Rightarrow> 'g \<Rightarrow> error + path_end \<times> 'g" where
  "path_loop_half ext p U 0 k logL g =
     Inr (\<lparr>pe_logL = logL, pe_knocked_out = False, pe_exit_step = p_M p\<rparr>, g)"
| "path_loop_half ext p U (Suc n) k logL g =
     (case step_half ext p U logL g of
        Inl e \<Rightarrow> Inl e
      | Inr (Break_half logL_pi, g') \<Rightarrow>
          Inr (\<lparr>pe_logL = logL_pi, pe_knocked_out = True, pe_exit_step = k\<rparr>, g')
      | Inr (Continue_half logL', g') \<Rightarrow> path_loop_half ext p U n (Suc k) logL' g')"

definition simulate_path_half ::
  "'g external \<Rightarrow> params \<Rightarrow> mat \<Rightarrow> 'g \<Rightarrow> error + path_end \<times> 'g" where
  "simulate_path_half ext p U g =
     (if p_sigma p = [] then Inl ValueError
      else path_loop_half ext p U (p_M p) 0 (map ln (p_L0 p)) g)"

text \<open>
  The lines after the loop over \<open>k\<close> of the second run, for path \<open>i\<close>:
  \<^verbatim>\<open>
  exit_times[p] = exit_step * h
  if not knocked_out:
      payoffs[p]     = delta * max(R_swap(logL, delta) - K, 0)
      discounts      = np.cumprod(1.0 / (1 + delta * np.exp(logL)))
      discount_sums[p] = np.sum(discounts)
      prices[p]       = P0_T0 * discount_sums[p] * payoffs[p]
  \<close>
\<close>

definition record_path_half :: "params \<Rightarrow> nat \<Rightarrow> path_end \<Rightarrow> arrays \<Rightarrow> arrays" where
  "record_path_half p i pe a =
     (let a1 = a\<lparr>exit_times := (exit_times a)[i := real (pe_exit_step pe) * h_of p]\<rparr>
      in if \<not> pe_knocked_out pe then
           let payoff = p_delta p * max (R_swap (pe_logL pe) (p_delta p) - p_K p) 0;
               discounts = cumprod (map (\<lambda>z. 1 / (1 + p_delta p * exp z)) (pe_logL pe));
               discount_sum = sum_list discounts
           in a1\<lparr>payoffs := (payoffs a1)[i := payoff],
                 discount_sums := (discount_sums a1)[i := discount_sum],
                 prices := (prices a1)[i := P0_T0 p * discount_sum * payoff]\<rparr>
         else a1)"

fun mc_loop_half ::
  "'g external \<Rightarrow> params \<Rightarrow> mat \<Rightarrow> nat list \<Rightarrow> arrays \<Rightarrow> 'g \<Rightarrow> error + arrays \<times> 'g" where
  "mc_loop_half ext p U [] a g = Inr (a, g)"
| "mc_loop_half ext p U (i # is) a g =
     (case simulate_path_half ext p U g of
        Inl e \<Rightarrow> Inl e
      | Inr (pe, g') \<Rightarrow> mc_loop_half ext p U is (record_path_half p i pe a) g')"

text \<open>
  The notebook up to its second result cell. The four result arrays are created once, by
  the \<^verbatim>\<open>np.zeros\<close> calls before the first loop; the second loop is not preceded by such
  calls and writes into the arrays the first loop has left (the cell between the two runs
  computes the analytic price and assigns none of the variables the loops read). Both
  result cells are
  \<^verbatim>\<open>
  price           = np.mean(prices)
  mean_exit_time  = np.mean(exit_times)
  \<close>
  The value is the pair printed by the first result cell and the pair printed by the
  second.
\<close>

definition notebook ::
  "'g external \<Rightarrow> params \<Rightarrow> 'g \<Rightarrow> error + (real \<times> real) \<times> (real \<times> real)" where
  "notebook ext p g =
     (if p_M p = 0 then Inl ZeroDivisionError
      else case cholesky_upper ext (rho p) of
        None \<Rightarrow> Inl LinAlgError
      | Some U \<Rightarrow>
          (if p_L0 p = [] then Inl IndexError
           else (case mc_loop ext p U [0..<p_n_paths p] (zeros (p_n_paths p)) g of
              Inl e \<Rightarrow> Inl e
            | Inr (a, g') \<Rightarrow>
                (case (np_mean (prices a), np_mean (exit_times a)) of
                   (Some price, Some mean_exit_time) \<Rightarrow>
                     (case mc_loop_half ext p U [0..<p_n_paths p] a g' of
                        Inl e \<Rightarrow> Inl e
                      | Inr (a2, g'') \<Rightarrow>
                          (case (np_mean (prices a2), np_mean (exit_times a2)) of
                             (Some price2, Some mean_exit_time2) \<Rightarrow>
                               Inr ((price, mean_exit_time), (price2, mean_exit_time2))
                           | _ \<Rightarrow> Inl InvalidValue))
                 | _ \<Rightarrow> Inl InvalidValue))))"

section \<open>Reference notions\<close>

text \<open>
  The parameter constraints of the specification other than the one on the barrier:
  \<open>N \<ge> 1\<close>, \<open>delta > 0\<close>, \<open>M \<ge> 1\<close>, \<open>T0 > 0\<close>, a positive barrier, a positive initial curve and
  non-negative volatilities, both of length \<open>N\<close>.
\<close>

definition valid_params :: "params \<Rightarrow> bool" where
  "valid_params p \<longleftrightarrow>
     1 \<le> p_N p \<and> 0 < p_delta p \<and> 1 \<le> p_M p \<and> 0 < p_T0 p \<and> 0 < p_Rup p
     \<and> length (p_L0 p) = p_N p \<and> length (p_sigma p) = p_N p
     \<and> list_all (\<lambda>l. 0 < l) (p_L0 p) \<and> list_all (\<lambda>s. 0 \<le> s) (p_sigma p)"

text \<open>
  The drift matrix as the specification describes it: the lower-triangular part, diagonal
  included, of \<open>rho\<close> times the outer product of \<open>sigma\<close> with itself.
\<close>

definition spec_DriftMatrix :: "params \<Rightarrow> nat \<Rightarrow> nat \<Rightarrow> real" where
  "spec_DriftMatrix p i j =
     (if j \<le> i then rho p ! i ! j * (p_sigma p ! i * p_sigma p ! j) else 0)"

text \<open>
  The closed form of \<open>ln L[0]\<close> as the specification and equation (6.13) of the notebook
  write it: the subtraction of \<open>1 / delta\<close> inside the logarithm. The suffix products are
  those of \<open>1 + delta * L[j]\<close> over the tail.
\<close>

definition spec_logL0 :: "vec \<Rightarrow> real \<Rightarrow> real \<Rightarrow> real" where
  "spec_logL0 y delta Rup =
     (let one_plus = map (\<lambda>z. 1 + delta * exp z) y;
          suffix_products = map (\<lambda>i. prod_list (drop i one_plus)) [0..<length one_plus]
      in ln ((Rup * (1 + sum_list suffix_products) + 1) / prod_list one_plus - 1 / delta))"

text \<open>
  The reference notions for the diffusion increment: the \<open>2^n\<close> equiprobable vectors of
  \<open>+1\<close> and \<open>-1\<close>, the expectation and the covariance over them, the matrix product, what it
  means for \<open>U\<close> to be the upper Cholesky factor of \<open>A\<close> (upper triangular, positive
  diagonal, \<open>U\<^sup>T U = A\<close>: what \<^verbatim>\<open>cholesky(rho, lower=False)\<close> returns), and the increment as
  the specification writes it, with the transposed factor.
\<close>

fun all_xi :: "nat \<Rightarrow> vec list" where
  "all_xi 0 = [[]]"
| "all_xi (Suc n) = map ((#) (- 1)) (all_xi n) @ map ((#) 1) (all_xi n)"

definition expectation :: "nat \<Rightarrow> (vec \<Rightarrow> real) \<Rightarrow> real" where
  "expectation n f = sum_list (map f (all_xi n)) / 2 ^ n"

definition covariance :: "nat \<Rightarrow> (vec \<Rightarrow> vec) \<Rightarrow> nat \<Rightarrow> nat \<Rightarrow> real" where
  "covariance n d i j =
     expectation n (\<lambda>xi. d xi ! i * d xi ! j)
     - expectation n (\<lambda>xi. d xi ! i) * expectation n (\<lambda>xi. d xi ! j)"

definition mat_mult :: "mat \<Rightarrow> mat \<Rightarrow> mat" where
  "mat_mult A B = map (\<lambda>row. map (\<lambda>col. sum_list (map2 (*) row col)) (transpose B)) A"

definition is_upper_cholesky :: "mat \<Rightarrow> mat \<Rightarrow> bool" where
  "is_upper_cholesky U A \<longleftrightarrow>
     length U = length A
     \<and> list_all (\<lambda>i. length (U ! i) = length A
                     \<and> list_all (\<lambda>j. U ! i ! j = 0) [0..<i] \<and> 0 < U ! i ! i) [0..<length U]
     \<and> mat_mult (transpose U) U = A"

definition spec_diffusion :: "params \<Rightarrow> mat \<Rightarrow> vec \<Rightarrow> vec" where
  "spec_diffusion p U xi =
     map2 (*) (map (\<lambda>s. s * sqrt (h_of p)) (p_sigma p)) (matvec (transpose U) xi)"

text \<open>
  The contribution of one path to the price as the specification states it:
  \<open>P(0,T0) * discountSum * payoff\<close> for a surviving path, 0 for a knocked-out one.
\<close>

definition spec_contribution :: "params \<Rightarrow> path_end \<Rightarrow> real" where
  "spec_contribution p pe =
     (if pe_knocked_out pe then 0
      else 1 / (1 + p_delta p * p_L0 p ! 0)
           * sum_list (cumprod (map (\<lambda>z. 1 / (1 + p_delta p * exp z)) (pe_logL pe)))
           * (p_delta p * max (R_swap (pe_logL pe) (p_delta p) - p_K p) 0))"

text \<open>
  The outcomes of the first \<open>n\<close> paths, in order, without the result arrays: what
  \<open>mc_loop\<close> feeds to \<open>record_path\<close>.
\<close>

fun simulate_paths ::
  "'g external \<Rightarrow> params \<Rightarrow> mat \<Rightarrow> nat \<Rightarrow> 'g \<Rightarrow> error + path_end list \<times> 'g" where
  "simulate_paths ext p U 0 g = Inr ([], g)"
| "simulate_paths ext p U (Suc n) g =
     (case simulate_path ext p U g of
        Inl e \<Rightarrow> Inl e
      | Inr (pe, g') \<Rightarrow>
          (case simulate_paths ext p U n g' of
             Inl e \<Rightarrow> Inl e
           | Inr (pes, g'') \<Rightarrow> Inr (pe # pes, g'')))"

text \<open>
  \<open>evolve ext p U n logL g\<close> is the state after \<open>n\<close> steps that all let the path
  continue, \<open>None\<close> when one of them knocks the path out or raises.
\<close>

fun evolve ::
  "'g external \<Rightarrow> params \<Rightarrow> mat \<Rightarrow> nat \<Rightarrow> vec \<Rightarrow> 'g \<Rightarrow> (vec \<times> 'g) option" where
  "evolve ext p U 0 logL g = Some (logL, g)"
| "evolve ext p U (Suc n) logL g =
     (case step ext p U logL g of
        Inr (Continue logL', g') \<Rightarrow> evolve ext p U n logL' g'
      | _ \<Rightarrow> None)"

text \<open>The sum of the products of all suffixes of a list, the empty suffix included.\<close>

fun suffix_sum :: "vec \<Rightarrow> real" where
  "suffix_sum [] = 1"
| "suffix_sum (q # qs) = prod_list (q # qs) + suffix_sum qs"

text \<open>
  The drift increment of coordinate \<open>i\<close> over one step as the specification states it:
  \<open>h\<close> times row \<open>i\<close> of the drift matrix applied to \<open>phi\<close>, minus
  \<open>sigma[i]\<^sup>2 h / 2\<close>, with \<open>phi[j] = delta L[j] / (1 + delta L[j])\<close>.
\<close>

definition spec_drift :: "params \<Rightarrow> vec \<Rightarrow> nat \<Rightarrow> real" where
  "spec_drift p logL i =
     h_of p * (\<Sum>j<p_N p. spec_DriftMatrix p i j
                 * (p_delta p * exp (logL ! j) / (1 + p_delta p * exp (logL ! j))))
     - 1 / 2 * (p_sigma p ! i)\<^sup>2 * h_of p"

section \<open>Concrete inputs\<close>

text \<open>
  Concrete stand-ins for the external routines, used to run the model on explicit inputs:
  an optimiser outcome that reports convergence at a given point, one that reports the
  line-search failure of L-BFGS-B, and an \<open>external\<close> whose optimisers answer by a given
  function of the start point, whose Cholesky routine returns a given factor and whose
  random generator always draws the same shocks \<open>xi\<close> and the same uniform value \<open>u\<close>.
\<close>

definition converged :: "vec \<Rightarrow> OptimizeResult" where
  "converged y = \<lparr>res_success = True, res_message = ''CONVERGENCE'', res_x = y\<rparr>"

definition abnormal :: "vec \<Rightarrow> OptimizeResult" where
  "abnormal y = \<lparr>res_success = False, res_message = ''ABNORMAL_TERMINATION_IN_LNSRCH'', res_x = y\<rparr>"

text \<open>An optimiser that converges (at its start point) from one start point only.\<close>

definition converges_only_at :: "vec \<Rightarrow> vec \<Rightarrow> OptimizeResult" where
  "converges_only_at y y0 = (if y0 = y then converged y0 else abnormal y0)"

definition fixed_external ::
  "(vec \<Rightarrow> OptimizeResult) \<Rightarrow> (vec \<Rightarrow> OptimizeResult) \<Rightarrow> mat option \<Rightarrow> vec \<Rightarrow> real \<Rightarrow> unit external" where
  "fixed_external lb sl U xi u =
     \<lparr>minimize_lbfgsb = (\<lambda>f y0. lb y0),
      minimize_slsqp = (\<lambda>f c x0. sl x0),
      cholesky_upper = (\<lambda>A. U),
      random_choice = (\<lambda>n g. (take n xi, g)),
      random_rand = (\<lambda>g. (u, g))\<rparr>"

text \<open>
  A small valid configuration (two forward rates at 5 percent, barrier at 7.5 percent,
  two time steps of length \<open>1 / 2\<close>), with the upper Cholesky factor of its correlation
  matrix.
\<close>

definition params_A :: params where
  "params_A = \<lparr>p_N = 2, p_T0 = 1, p_delta = 1, p_M = 2, p_K = 1 / 100, p_Rup = 3 / 40,
                p_L0 = [1 / 20, 1 / 20], p_sigma = [1 / 10, 1 / 10], p_beta = 1 / 10,
                p_n_paths = 2\<rparr>"

definition U_A :: mat where
  "U_A = [[1, exp (- (1 / 10))], [0, sqrt (1 - (exp (- (1 / 10)))\<^sup>2)]]"

text \<open>The configuration \<open>params_A\<close> with zero volatilities: every path is deterministic.\<close>

definition params_S :: params where
  "params_S = \<lparr>p_N = 2, p_T0 = 1, p_delta = 1, p_M = 2, p_K = 1 / 100, p_Rup = 3 / 40,
                p_L0 = [1 / 20, 1 / 20], p_sigma = [0, 0], p_beta = 1 / 10,
                p_n_paths = 2\<rparr>"

text \<open>
  The configuration \<open>params_A\<close> with the barrier at 4 percent, below the initial swap rate of
  5 percent.
\<close>

definition params_B :: params where
  "params_B = \<lparr>p_N = 2, p_T0 = 1, p_delta = 1, p_M = 2, p_K = 1 / 100, p_Rup = 1 / 25,
                p_L0 = [1 / 20, 1 / 20], p_sigma = [1 / 10, 1 / 10], p_beta = 1 / 10,
                p_n_paths = 2\<rparr>"

text \<open>
  A configuration with zero volatilities whose initial state is a fixed point of the fast
  projection (\<open>L0[0] = (923 / 840) / e\<close>, about 0.404), the barrier at 7.5 percent.
\<close>

definition params_Z :: params where
  "params_Z = \<lparr>p_N = 2, p_T0 = 1, p_delta = 1, p_M = 2, p_K = 1 / 100, p_Rup = 3 / 40,
                p_L0 = [923 / 840 * exp (- 1), 1 / 20], p_sigma = [0, 0], p_beta = 1 / 10,
                p_n_paths = 2\<rparr>"

text \<open>
  The state of \<open>params_B\<close> after one boundary-zone step without knock-out (projection
  computed from the tail of the initial state, shocks \<open>[1, 1]\<close>): the initial state pulled by
  \<open>lambda_k\<close> in coordinate 0, plus drift and diffusion.
\<close>

definition state_B1 :: vec where
  "state_B1 =
     [ln (1 / 20) + lambda_k params_B + (1 / 4200 - 1 / 400)
        + 1 / 10 * sqrt (1 / 2) * (1 + exp (- (1 / 10))),
      ln (1 / 20) + ((exp (- (1 / 10)) + 1) / 4200 - 1 / 400)
        + 1 / 10 * sqrt (1 / 2) * sqrt (1 - (exp (- (1 / 10)))\<^sup>2)]"

text \<open>
  A valid configuration whose barrier, at 5.05 percent, is above the initial swap rate of
  5 percent but so close to it that the first step of a path is in the boundary zone: one
  time step of length \<open>1 / 2\<close>, one path.
\<close>

definition params_C :: params where
  "params_C = \<lparr>p_N = 2, p_T0 = 1 / 2, p_delta = 1, p_M = 1, p_K = 1 / 100, p_Rup = 101 / 2000,
                p_L0 = [1 / 20, 1 / 20], p_sigma = [1 / 10, 1 / 10], p_beta = 1 / 10,
                p_n_paths = 1\<rparr>"

section \<open>The all-equal forward curve\<close>

lemma prod_list_replicate_real: "prod_list (replicate n (q::real)) = q ^ n"
  by (induction n) simp_all

lemma annuity_flat:
  assumes "a \<noteq> 0" "q \<noteq> 0"
  shows "(q - 1) * sum_list (map (\<lambda>p. 1 / p) (cumprod_from a (replicate n q)))
         = (1 - 1 / q ^ n) / a"
  using assms
proof (induction n arbitrary: a)
  case 0
  then show ?case by simp
next
  case (Suc n)
  have "(q - 1) * sum_list (map (\<lambda>p. 1 / p) (cumprod_from a (replicate (Suc n) q)))
      = (q - 1) / (a * q)
        + (q - 1) * sum_list (map (\<lambda>p. 1 / p) (cumprod_from (a * q) (replicate n q)))"
    by (simp add: algebra_simps)
  also have "\<dots> = (q - 1) / (a * q) + (1 - 1 / q ^ n) / (a * q)"
    using Suc.IH [of "a * q"] Suc.prems by simp
  also have "\<dots> = (1 - 1 / q ^ Suc n) / a"
    using Suc.prems by (simp add: field_simps)
  finally show ?case .
qed

lemma R_swap_replicate:
  assumes "1 \<le> n" "0 < delta" "0 < c"
  shows "R_swap (replicate n (ln c)) delta = c"
proof -
  define q where "q = 1 + delta * c"
  have q: "1 < q" using assms by (simp add: q_def)
  have qn: "1 < q ^ n" using q assms(1) by (simp add: one_less_power)
  have L: "map (\<lambda>l. 1 + delta * l) (map exp (replicate n (ln c))) = replicate n q"
    using assms by (simp add: q_def)
  have ann: "(q - 1) * sum_list (map (\<lambda>p. 1 / p) (cumprod (replicate n q))) = 1 - 1 / q ^ n"
    using annuity_flat [of 1 q n] q by (simp add: cumprod_def)
  have pos: "0 < 1 - 1 / q ^ n" using qn by simp
  define A where "A = delta * sum_list (map (\<lambda>p. 1 / p) (cumprod (replicate n q)))"
  have Ac: "A * c = 1 - 1 / q ^ n"
    using ann by (simp add: A_def q_def mult.commute mult.left_commute)
  have "A \<noteq> 0" using Ac pos by auto
  then have "(1 - 1 / q ^ n) / A = c"
    using Ac by (simp add: field_simps)
  then show ?thesis
    unfolding R_swap_def Let_def L prod_list_replicate_real A_def by simp
qed

text \<open>
  Claim C9. For every \<open>N \<ge> 1\<close>, \<open>delta > 0\<close> and \<open>c > 0\<close> the swap rate of the all-equal
  forward curve \<open>L0 = [c] * N\<close> (log-forwards \<open>ln c\<close>) is exactly \<open>c\<close>.
\<close>

theorem C9_swap_rate_flat_curve:
  assumes "1 \<le> n" "0 < delta" "0 < c"
  shows "R_swap (replicate n (ln c)) delta = c"
  using assms by (rule R_swap_replicate)

theorem C9_swap_rate_flat_curve_witness:
  "(1::nat) \<le> 10 \<and> (0::real) < 1 \<and> (0::real) < 1 / 20
   \<and> R_swap (replicate 10 (ln (1 / 20))) 1 = 1 / 20"
  using C9_swap_rate_flat_curve [of 10 1 "1 / 20"] by simp

section \<open>The drift increment\<close>

lemma sum_list_map2_mult:
  "length xs = length ys \<Longrightarrow>
     sum_list (map2 (*) xs ys) = (\<Sum>j<length xs. xs ! j * (ys ! j :: real))"
  by (simp add: sum_list_sum_nth atLeast0LessThan)

lemma nth_matvec: "i < length A \<Longrightarrow> matvec A v ! i = sum_list (map2 (*) (A ! i) v)"
  by (simp add: matvec_def)

lemma length_tril [simp]: "length (tril A) = length A"
  by (simp add: tril_def)

lemma nth_tril_row:
  "i < length A \<Longrightarrow>
     tril A ! i = map (\<lambda>(j, a). if j \<le> i then a else 0) (enumerate 0 (A ! i))"
  by (simp add: tril_def nth_enumerate_eq)

lemma nth_tril:
  "i < length A \<Longrightarrow> j < length (A ! i) \<Longrightarrow> tril A ! i ! j = (if j \<le> i then A ! i ! j else 0)"
  by (simp add: nth_tril_row nth_enumerate_eq)

lemma length_tril_row: "i < length A \<Longrightarrow> length (tril A ! i) = length (A ! i)"
  by (simp add: nth_tril_row)

lemma length_times_of [simp]: "length (times_of p) = p_N p"
  by (simp add: times_of_def)

lemma length_rho [simp]: "length (rho p) = p_N p"
  by (simp add: rho_def)

lemma length_rho_row: "i < p_N p \<Longrightarrow> length (rho p ! i) = p_N p"
  by (simp add: rho_def)

lemma length_full_mat:
  "length (p_sigma p) = p_N p \<Longrightarrow> length (full_mat p) = p_N p"
  by (simp add: full_mat_def outer_def)

lemma full_mat_row:
  assumes "length (p_sigma p) = p_N p" "i < p_N p"
  shows "length (full_mat p ! i) = p_N p"
    and "j < p_N p \<Longrightarrow> full_mat p ! i ! j = rho p ! i ! j * (p_sigma p ! i * p_sigma p ! j)"
  using assms by (simp_all add: full_mat_def outer_def length_rho_row)

lemma drift_mat_nth:
  assumes "length (p_sigma p) = p_N p" "i < p_N p" "j < p_N p"
  shows "drift_mat p ! i ! j = spec_DriftMatrix p i j"
  using assms
  by (simp add: drift_mat_def nth_tril length_full_mat full_mat_row spec_DriftMatrix_def)

lemma drift_mat_row_length:
  assumes "length (p_sigma p) = p_N p" "i < p_N p"
  shows "length (drift_mat p ! i) = p_N p"
  using assms by (simp add: drift_mat_def length_tril_row length_full_mat full_mat_row)

lemma drift_vec_nth:
  assumes "length (p_sigma p) = p_N p" "length logL = p_N p" "i < p_N p"
  shows "drift_vec p logL ! i =
           h_of p * (\<Sum>j<p_N p. spec_DriftMatrix p i j
                       * (p_delta p * exp (logL ! j) / (1 + p_delta p * exp (logL ! j))))
           - 1 / 2 * (p_sigma p ! i)\<^sup>2 * h_of p"
proof -
  define v where "v = map (\<lambda>l. p_delta p * l / (1 + p_delta p * l)) (map exp logL)"
  have lv: "length v = p_N p" using assms by (simp add: v_def)
  have ldm: "length (drift_mat p) = p_N p"
    using assms by (simp add: drift_mat_def length_full_mat)
  have "matvec (drift_mat p) v ! i = (\<Sum>j<p_N p. drift_mat p ! i ! j * v ! j)"
    using assms lv ldm drift_mat_row_length [of p i]
    by (simp add: nth_matvec sum_list_map2_mult)
  also have "\<dots> = (\<Sum>j<p_N p. spec_DriftMatrix p i j * v ! j)"
    using assms by (intro sum.cong) (simp_all add: drift_mat_nth)
  also have "\<dots> = (\<Sum>j<p_N p. spec_DriftMatrix p i j
                       * (p_delta p * exp (logL ! j) / (1 + p_delta p * exp (logL ! j))))"
    using assms by (intro sum.cong) (simp_all add: v_def)
  finally have mv: "matvec (drift_mat p) v ! i =
     (\<Sum>j<p_N p. spec_DriftMatrix p i j
                       * (p_delta p * exp (logL ! j) / (1 + p_delta p * exp (logL ! j))))" .
  have "drift_vec p logL ! i = matvec (drift_mat p) v ! i * h_of p - 0.5 * (p_sigma p ! i)\<^sup>2 * h_of p"
    using assms ldm unfolding drift_vec_def Let_def v_def [symmetric]
    by (simp add: matvec_def)
  then show ?thesis by (simp add: mv)
qed

lemma euler_update_form:
  "euler_update ext p U dv base g = (logL', g') \<Longrightarrow>
     logL' = map2 (+) base (map2 (+) dv (diffusion p U (fst (random_choice ext (p_N p) g))))"
  by (auto simp: euler_update_def Let_def split: prod.splits)

lemma h_of_A: "h_of params_A = 1 / 2"
  by (simp add: h_of_def params_A_def)

lemma coarse_bound_A: "coarse_bound params_A = 43 / 400"
  by (simp add: coarse_bound_def np_max_def h_of_A Let_def power2_eq_square) (simp add: params_A_def)

lemma ln_three_halves: "43 / 400 < ln (3 / 2 :: real)"
proof -
  have "exp (43 / 400 :: real) \<le> 1 + 43 / 400 + (43 / 400)\<^sup>2"
    by (rule exp_bound) simp_all
  also have "\<dots> < 3 / 2" by (simp add: power2_eq_square)
  finally have "exp (43 / 400 :: real) < exp (ln (3 / 2))" by simp
  then show ?thesis by (simp only: exp_less_cancel_iff)
qed

lemma coarse_check_A: "coarse_check params_A (map ln (p_L0 params_A))"
proof -
  have "ln (3 / 40 :: real) = ln (3 / 2) + ln (1 / 20)"
    using ln_mult [of "3 / 2 :: real" "1 / 20"] by simp
  then show ?thesis
    using ln_three_halves
    by (simp add: coarse_check_def coarse_bound_A np_max_def) (simp add: params_A_def)
qed

lemma step_A:
  "step (fixed_external converged converged (Some U_A) [1, 1] (1 / 2)) params_A U_A
        (map ln (p_L0 params_A)) ()
   = Inr (Continue (map2 (+) (map ln (p_L0 params_A))
            (map2 (+) (drift_vec params_A (map ln (p_L0 params_A)))
                      (diffusion params_A U_A [1, 1]))), ())"
  using coarse_check_A
  by (simp add: step_def euler_update_def fixed_external_def) (simp add: params_A_def)

lemma rho_A: "rho params_A = [[1, exp (- (1 / 10))], [exp (- (1 / 10)), 1]]"
  by (simp add: rho_def times_of_def params_A_def upt_rec)

section \<open>The fast projection and the barrier\<close>

lemma swap_two_algebra:
  fixes a b :: real
  assumes "0 < a" "0 < b"
  shows "(1 - 1 / ((1 + a) * (1 + b))) / (1 / (1 + a) + 1 / ((1 + a) * (1 + b)))
         = (a + b + a * b) / (2 + b)"
proof -
  define p where "p = 1 + a"
  define q where "q = 1 + b"
  have pq: "0 < p" "0 < q" using assms by (simp_all add: p_def q_def)
  have n: "1 - 1 / (p * q) = (p * q - 1) / (p * q)"
    using pq by (simp add: field_simps)
  have d: "1 / p + 1 / (p * q) = (q + 1) / (p * q)"
    using pq by (simp add: field_simps)
  have "((p * q - 1) / (p * q)) / ((q + 1) / (p * q)) = (p * q - 1) / (q + 1)"
    using pq by simp
  then have "(1 - 1 / (p * q)) / (1 / p + 1 / (p * q)) = (p * q - 1) / (q + 1)"
    by (simp only: n d)
  moreover have "p * q - 1 = a + b + a * b" "q + 1 = 2 + b"
    by (simp_all add: p_def q_def algebra_simps)
  ultimately show ?thesis by (simp add: p_def q_def)
qed

lemma R_swap_two:
  "R_swap [z0, z1] 1 = (exp z0 + exp z1 + exp z0 * exp z1) / (2 + exp z1)"
  using swap_two_algebra [of "exp z0" "exp z1"]
  by (simp add: R_swap_def Let_def cumprod_def)

lemma exp_minus_one_bounds: "1 / 3 \<le> exp (- 1 :: real)" "exp (- 1 :: real) < 1"
proof -
  have "exp (1::real) \<le> 3" by (rule exp_le)
  moreover have "0 < exp (1::real)" by simp
  ultimately have "1 / 3 \<le> 1 / exp (1::real)"
    by (simp add: field_simps)
  then show "1 / 3 \<le> exp (- 1 :: real)" by (simp add: exp_minus inverse_eq_divide)
  show "exp (- 1 :: real) < 1" by simp
qed

lemma logL0_of_tail_one:
  assumes "0 < Rup"
  shows "exp (logL0_of_tail [y] 1 Rup) = exp (- 1) * ((Rup * (2 + exp y) + 1) / (1 + exp y))"
proof -
  have "0 < (Rup * (2 + exp y) + 1) / (1 + exp y)"
    using assms by (intro divide_pos_pos add_pos_pos mult_pos_pos) simp_all
  then show ?thesis
    unfolding logL0_of_tail_def Let_def cumprod_def
    by (simp add: exp_diff exp_minus field_simps)
qed

lemma fast_projection_swap_rate:
  assumes "0 < Rup"
  shows "R_swap (logLpi_of_tail [y] 1 Rup) 1
           = exp (- 1) * Rup + (exp (- 1) + exp y) / (2 + exp y)"
proof -
  define a where "a = exp y"
  define c where "c = exp (- 1 :: real)"
  have a: "0 < a" by (simp add: a_def)
  have pa: "0 < 1 + a" "0 < 2 + a" using a by simp_all
  have "R_swap (logLpi_of_tail [y] 1 Rup) 1
          = (c * ((Rup * (2 + a) + 1) / (1 + a)) + a + c * ((Rup * (2 + a) + 1) / (1 + a)) * a)
            / (2 + a)"
    unfolding logLpi_of_tail_def R_swap_two logL0_of_tail_one [OF assms] a_def c_def ..
  also have "c * ((Rup * (2 + a) + 1) / (1 + a)) + a + c * ((Rup * (2 + a) + 1) / (1 + a)) * a
          = c * (Rup * (2 + a) + 1) + a"
  proof -
    define p where "p = 1 + a"
    define X where "X = Rup * (2 + a) + 1"
    have p: "0 < p" using a by (simp add: p_def)
    define Y where "Y = c * (X / p)"
    have "Y + a + Y * a = Y * p + a"
      by (simp add: p_def algebra_simps)
    also have "Y * p = c * X" using p by (simp add: Y_def)
    finally show ?thesis by (simp add: p_def X_def Y_def)
  qed
  also have "(c * (Rup * (2 + a) + 1) + a) / (2 + a) = c * Rup + (c + a) / (2 + a)"
  proof -
    define q where "q = 2 + a"
    have q: "0 < q" using a by (simp add: q_def)
    have "(c * (Rup * q + 1) + a) / q = c * Rup + (c + a) / q"
      using q by (simp add: field_simps)
    then show ?thesis by (simp add: q_def)
  qed
  finally show ?thesis by (simp add: a_def c_def)
qed

lemma fast_projection_above_barrier:
  "3 / 40 + 1 / 10 < R_swap (logLpi_of_tail [y] 1 (3 / 40)) 1"
proof -
  define c where "c = exp (- 1 :: real)"
  define a where "a = exp y"
  have c: "1 / 3 \<le> c" "c < 1" using exp_minus_one_bounds by (simp_all add: c_def)
  have a: "0 < a" by (simp add: a_def)
  have pa: "0 < 2 + a" using a by simp
  have "c * (2 + a) \<le> 2 * (c + a)"
    using a c by (simp add: algebra_simps)
  then have "c / 2 \<le> (c + a) / (2 + a)"
    using pa by (simp add: field_simps)
  moreover have "3 / 40 + 1 / 10 < c * (3 / 40) + c / 2" using c by simp
  ultimately have "3 / 40 + 1 / 10 < c * (3 / 40) + (c + a) / (2 + a)" by linarith
  then show ?thesis
    unfolding c_def a_def using fast_projection_swap_rate [of "3 / 40" y] by simp
qed

lemma logL0_of_tail_at_input: "logL0_of_tail [ln (1 / 20)] 1 (3 / 40) = ln (923 / 840) - 1"
  by (simp add: logL0_of_tail_def cumprod_def)

lemma spec_logL0_at_input: "spec_logL0 [ln (1 / 20)] 1 (3 / 40) = ln (83 / 840)"
  by (simp add: spec_logL0_def)

lemma code_differs_from_closed_form: "ln (923 / 840) - 1 \<noteq> ln (83 / 840 :: real)"
proof
  assume "ln (923 / 840) - 1 = ln (83 / 840 :: real)"
  then have "exp (ln (923 / 840) - 1) = exp (ln (83 / 840 :: real))" by simp
  then have "923 / 840 / exp 1 = (83 / 840 :: real)" by (simp add: exp_diff)
  then have "exp 1 = (923 / 83 :: real)" by (simp add: field_simps)
  moreover have "exp (1::real) \<le> 3" by (rule exp_le)
  ultimately show False by simp
qed

text \<open>
  Claim C1 says that the fast projection reconstructs \<open>z0\<close> by the closed form with the
  subtraction of \<open>1 / delta\<close> inside the logarithm, so that the reconstructed vector has
  swap rate \<open>Rup\<close>. The code subtracts outside the logarithm. At the tail
  \<open>[ln 0.05]\<close> with \<open>delta = 1\<close> and \<open>Rup = 0.075\<close> the code computes
  \<open>ln (923 / 840) - 1\<close>, the closed form is \<open>ln (923 / 840 - 1)\<close>, the two differ, the
  closed form gives a vector of swap rate \<open>Rup\<close> and the code's vector has another swap
  rate.
\<close>

theorem C1_fast_form_subtracts_outside_log:
  "logL0_of_tail [ln (1 / 20)] 1 (3 / 40) = ln (923 / 840) - 1
   \<and> spec_logL0 [ln (1 / 20)] 1 (3 / 40) = ln (923 / 840 - 1)
   \<and> logL0_of_tail [ln (1 / 20)] 1 (3 / 40) \<noteq> spec_logL0 [ln (1 / 20)] 1 (3 / 40)
   \<and> R_swap (spec_logL0 [ln (1 / 20)] 1 (3 / 40) # [ln (1 / 20)]) 1 = 3 / 40
   \<and> R_swap (logLpi_of_tail [ln (1 / 20)] 1 (3 / 40)) 1 \<noteq> 3 / 40"
proof -
  have "R_swap (spec_logL0 [ln (1 / 20)] 1 (3 / 40) # [ln (1 / 20)]) 1 = 3 / 40"
    by (simp add: spec_logL0_at_input R_swap_two)
  moreover have "R_swap (logLpi_of_tail [ln (1 / 20)] 1 (3 / 40)) 1 \<noteq> 3 / 40"
    using fast_projection_above_barrier [of "ln (1 / 20)"] by simp
  ultimately show ?thesis
    using code_differs_from_closed_form
    by (simp add: logL0_of_tail_at_input spec_logL0_at_input)
qed

lemma project_to_barrier2_result:
  assumes "project_to_barrier2 ext [x0, x1] delta Rup = Inr z"
  shows "\<exists>y. z = logLpi_of_tail [y] delta Rup"
proof -
  from assms obtain ys where "length ys = 1" "z = logLpi_of_tail ys delta Rup"
    by (auto simp: project_to_barrier2_def Let_def split: if_splits)
  then show ?thesis by (cases ys) auto
qed

text \<open>
  Claim C2 says that whenever a projector returns, the swap rate of its result is within
  \<open>1e-6\<close> of \<open>Rup\<close>. For two forward rates, \<open>delta = 1\<close> and \<open>Rup = 0.075\<close>, whatever
  the state and whatever point the optimiser returns, the result of the fast projection
  has a swap rate more than \<open>0.1\<close> away from \<open>Rup\<close>.
\<close>

theorem C2_fast_projection_misses_barrier:
  assumes "project_to_barrier2 ext [x0, x1] 1 (3 / 40) = Inr z"
  shows "1 / 10 < \<bar>R_swap z 1 - 3 / 40\<bar>"
proof -
  from project_to_barrier2_result [OF assms]
  obtain y where "z = logLpi_of_tail [y] 1 (3 / 40)" ..
  then show ?thesis using fast_projection_above_barrier [of y] by simp
qed

theorem C2_fast_projection_misses_barrier_witness:
  "project_to_barrier2 (fixed_external converged converged None [] 0)
       [ln (1 / 20), ln (1 / 20)] 1 (3 / 40)
     = Inr (logLpi_of_tail [ln (1 / 20)] 1 (3 / 40))
   \<and> 1 / 10 < \<bar>R_swap (logLpi_of_tail [ln (1 / 20)] 1 (3 / 40)) 1 - 3 / 40\<bar>"
proof -
  have run: "project_to_barrier2 (fixed_external converged converged None [] 0)
       [ln (1 / 20), ln (1 / 20)] 1 (3 / 40)
     = Inr (logLpi_of_tail [ln (1 / 20)] 1 (3 / 40))"
    by (simp add: project_to_barrier2_def fixed_external_def converged_def)
  from C2_fast_projection_misses_barrier [OF run] run show ?thesis by simp
qed

lemma swap_two_mono:
  fixes a0 a1 g0 g1 :: real
  assumes "0 \<le> a0" "0 \<le> a1" "a0 \<le> g0" "a1 \<le> g1"
  shows "(a0 + a1 + a0 * a1) / (2 + a1) \<le> (g0 + g1 + g0 * g1) / (2 + g1)"
proof -
  have pos: "0 < 2 + a1" "0 < 2 + g1" using assms by simp_all
  have "0 \<le> (2 + a0) * (g1 - a1)" using assms by simp
  then have "(a0 + a1 + a0 * a1) * (2 + g1) \<le> (a0 + g1 + a0 * g1) * (2 + a1)"
    by (simp add: algebra_simps)
  moreover have "a0 + g1 + a0 * g1 \<le> g0 + g1 + g0 * g1"
  proof -
    have "a0 * (1 + g1) \<le> g0 * (1 + g1)"
      using assms by (intro mult_right_mono) simp_all
    then show ?thesis by (simp add: algebra_simps)
  qed
  ultimately have "(a0 + a1 + a0 * a1) * (2 + g1) \<le> (g0 + g1 + g0 * g1) * (2 + a1)"
    using pos by (meson mult_right_mono order_trans less_imp_le)
  then show ?thesis using pos by (simp add: field_simps)
qed

lemma swap_two_scale:
  fixes a0 a1 t :: real
  assumes "0 \<le> a0" "0 \<le> a1" "0 \<le> t" "t \<le> 1"
  shows "t * t * ((a0 + a1 + a0 * a1) / (2 + a1))
           \<le> (t * a0 + t * a1 + (t * a0) * (t * a1)) / (2 + t * a1)"
proof -
  have tt: "t * t \<le> t" using assms by (simp add: mult_left_le)
  have pos: "0 < 2 + a1" "0 < 2 + t * a1" using assms by (simp_all add: add_pos_nonneg)
  have le: "2 + t * a1 \<le> 2 + a1" using assms by (simp add: mult_left_le_one_le)
  have n0: "0 \<le> a0 + a1" "0 \<le> a0 * a1" using assms by simp_all
  have "t * t * (a0 + a1 + a0 * a1) \<le> t * (a0 + a1) + t * t * (a0 * a1)"
    using mult_right_mono [OF tt n0(1)] by (simp add: algebra_simps)
  then have num: "t * t * (a0 + a1 + a0 * a1) \<le> t * a0 + t * a1 + (t * a0) * (t * a1)"
    by (simp add: algebra_simps)
  have n1: "0 \<le> t * t * (a0 + a1 + a0 * a1)" using assms n0 by simp
  have "t * t * (a0 + a1 + a0 * a1) / (2 + a1) \<le> t * t * (a0 + a1 + a0 * a1) / (2 + t * a1)"
    using n1 le pos by (intro divide_left_mono) simp_all
  also have "\<dots> \<le> (t * a0 + t * a1 + (t * a0) * (t * a1)) / (2 + t * a1)"
    using num pos by (intro divide_right_mono) simp_all
  finally show ?thesis by simp
qed

lemma exp_minus_fifth: "4 / 5 \<le> exp (- (1 / 10)) * exp (- (1 / 10) :: real)"
proof -
  have "1 + (- (1 / 5)) \<le> exp (- (1 / 5) :: real)" by (rule exp_ge_add_one_self)
  moreover have "exp (- (1 / 10)) * exp (- (1 / 10) :: real) = exp (- (1 / 5))"
    by (simp add: exp_add [symmetric])
  ultimately show ?thesis by simp
qed

lemma close_points_close_rates:
  assumes "\<bar>g0 - f0\<bar> \<le> 1 / 10" "\<bar>g1 - f1\<bar> \<le> 1 / 10"
  shows "4 / 5 * R_swap [f0, f1] 1 \<le> R_swap [g0, g1] 1"
proof -
  define t where "t = exp (- (1 / 10) :: real)"
  have t: "0 \<le> t" "t \<le> 1" by (simp_all add: t_def)
  have g0: "t * exp f0 \<le> exp g0"
  proof -
    have "- (1 / 10) + f0 \<le> g0" using assms(1) by linarith
    then have "exp (- (1 / 10) + f0) \<le> exp g0" by (simp only: exp_le_cancel_iff)
    then show ?thesis by (simp only: t_def exp_add)
  qed
  have g1: "t * exp f1 \<le> exp g1"
  proof -
    have "- (1 / 10) + f1 \<le> g1" using assms(2) by linarith
    then have "exp (- (1 / 10) + f1) \<le> exp g1" by (simp only: exp_le_cancel_iff)
    then show ?thesis by (simp only: t_def exp_add)
  qed
  have R0: "0 \<le> R_swap [f0, f1] 1"
    unfolding R_swap_two by (intro divide_nonneg_pos add_nonneg_nonneg add_pos_pos) simp_all
  have "4 / 5 * R_swap [f0, f1] 1 \<le> t * t * R_swap [f0, f1] 1"
    using exp_minus_fifth R0 unfolding t_def by (intro mult_right_mono) simp_all
  also have "\<dots> \<le> (t * exp f0 + t * exp f1 + (t * exp f0) * (t * exp f1)) / (2 + t * exp f1)"
    unfolding R_swap_two using t by (intro swap_two_scale) simp_all
  also have "\<dots> \<le> R_swap [g0, g1] 1"
    unfolding R_swap_two using t g0 g1 by (intro swap_two_mono) simp_all
  finally show ?thesis .
qed

text \<open>
  Claim C4 says that the two projection algorithms agree to solver tolerance whenever both
  succeed. For two forward rates, \<open>delta = 1\<close> and \<open>Rup = 0.075\<close>: when both return and the
  general form's result meets the barrier within \<open>1e-6\<close> (its equality constraint), the two
  results differ by more than \<open>0.1\<close> in some coordinate.
\<close>

theorem C4_projections_disagree:
  assumes gen: "project_to_barrier ext [x0, x1] 1 (3 / 40) = Inr zg"
      and fast: "project_to_barrier2 ext [x0, x1] 1 (3 / 40) = Inr zf"
      and len: "length zg = 2"
      and tol: "\<bar>R_swap zg 1 - 3 / 40\<bar> < 1 / 10 ^ 6"
  shows "\<exists>i<2. 1 / 10 < \<bar>zg ! i - zf ! i\<bar>"
proof (rule ccontr)
  assume "\<not> (\<exists>i<2. 1 / 10 < \<bar>zg ! i - zf ! i\<bar>)"
  then have all: "\<And>i. i < 2 \<Longrightarrow> \<bar>zg ! i - zf ! i\<bar> \<le> 1 / 10"
    by (meson not_less)
  have close: "\<bar>zg ! 0 - zf ! 0\<bar> \<le> 1 / 10" "\<bar>zg ! 1 - zf ! 1\<bar> \<le> 1 / 10"
    using all [of 0] all [of 1] by simp_all
  from project_to_barrier2_result [OF fast]
  obtain y where zf: "zf = logLpi_of_tail [y] 1 (3 / 40)" ..
  define f0 where "f0 = logL0_of_tail [y] 1 (3 / 40)"
  have zf': "zf = [f0, y]" by (simp add: zf logLpi_of_tail_def f0_def)
  from len obtain g0 g1 where zg: "zg = [g0, g1]"
    by (cases zg; cases "tl zg") auto
  have "4 / 5 * R_swap [f0, y] 1 \<le> R_swap [g0, g1] 1"
    using close by (intro close_points_close_rates) (simp_all add: zf' zg)
  moreover have "3 / 40 + 1 / 10 < R_swap [f0, y] 1"
    using fast_projection_above_barrier [of y] by (simp add: logLpi_of_tail_def f0_def)
  ultimately have "4 / 5 * (3 / 40 + 1 / 10) < R_swap zg 1" by (simp add: zg)
  with tol show False by simp
qed

theorem C4_projections_disagree_witness:
  "project_to_barrier
       (fixed_external converged (\<lambda>x0. converged [ln (3 / 40), ln (3 / 40)]) None [] 0)
       [ln (1 / 20), ln (1 / 20)] 1 (3 / 40)
     = Inr [ln (3 / 40), ln (3 / 40)]
   \<and> project_to_barrier2
       (fixed_external converged (\<lambda>x0. converged [ln (3 / 40), ln (3 / 40)]) None [] 0)
       [ln (1 / 20), ln (1 / 20)] 1 (3 / 40)
     = Inr (logLpi_of_tail [ln (1 / 20)] 1 (3 / 40))
   \<and> \<bar>R_swap [ln (3 / 40), ln (3 / 40)] 1 - 3 / 40\<bar> < 1 / 10 ^ 6
   \<and> (\<exists>i<2. 1 / 10 < \<bar>[ln (3 / 40), ln (3 / 40)] ! i
                           - logLpi_of_tail [ln (1 / 20)] 1 (3 / 40) ! i\<bar>)"
proof -
  let ?ext = "fixed_external converged (\<lambda>x0. converged [ln (3 / 40), ln (3 / 40)]) None [] 0"
  have gen: "project_to_barrier ?ext [ln (1 / 20), ln (1 / 20)] 1 (3 / 40)
               = Inr [ln (3 / 40), ln (3 / 40)]"
    by (simp add: project_to_barrier_def fixed_external_def converged_def)
  have fast: "project_to_barrier2 ?ext [ln (1 / 20), ln (1 / 20)] 1 (3 / 40)
               = Inr (logLpi_of_tail [ln (1 / 20)] 1 (3 / 40))"
    by (simp add: project_to_barrier2_def fixed_external_def converged_def)
  have len: "length [ln (3 / 40), ln (3 / 40 :: real)] = 2" by simp
  have tol: "\<bar>R_swap [ln (3 / 40), ln (3 / 40)] 1 - 3 / 40\<bar> < 1 / 10 ^ 6"
    by (simp add: R_swap_two)
  from C4_projections_disagree [OF gen fast len tol] gen fast tol show ?thesis by simp
qed

section \<open>The covariance of the diffusion increment\<close>

lemma all_xi_2: "all_xi 2 = [[- 1, - 1], [- 1, 1], [1, - 1], [1, 1]]"
  by (simp add: eval_nat_numeral)

lemma r_bounds: "0 < exp (- (1 / 10) :: real)" "(exp (- (1 / 10) :: real))\<^sup>2 < 1"
  by (simp_all add: abs_square_less_1)

lemma r_square_abs:
  "\<bar>1 - exp (- (1 / 10)) * exp (- (1 / 10) :: real)\<bar> = 1 - exp (- (1 / 10)) * exp (- (1 / 10))"
  using r_bounds(2) by (simp add: power2_eq_square)

lemma transpose_U_A: "transpose U_A = [[1, 0], [exp (- (1 / 10)), sqrt (1 - (exp (- (1 / 10)))\<^sup>2)]]"
  by (simp add: U_A_def transpose.simps)

lemma U_A_cholesky: "is_upper_cholesky U_A (rho params_A)"
proof -
  have pos: "0 < sqrt (1 - (exp (- (1 / 10) :: real))\<^sup>2)"
    using r_bounds by simp
  have t: "transpose (transpose U_A) = U_A"
    by (simp add: transpose_U_A transpose.simps) (simp add: U_A_def)
  have m: "mat_mult (transpose U_A) U_A = rho params_A"
    unfolding mat_mult_def t rho_A
    by (simp add: transpose_U_A) (simp add: U_A_def power2_eq_square r_square_abs)
  show ?thesis
    unfolding is_upper_cholesky_def using pos m
    by (simp add: rho_A) (simp add: U_A_def upt_rec)
qed

lemma diffusion_A:
  "diffusion params_A U_A [a, b]
     = [1 / 10 * sqrt (1 / 2) * (a + exp (- (1 / 10)) * b),
        1 / 10 * sqrt (1 / 2) * (sqrt (1 - (exp (- (1 / 10)))\<^sup>2) * b)]"
  by (simp add: diffusion_def matvec_def h_of_A U_A_def) (simp add: params_A_def)

lemma spec_diffusion_A:
  "spec_diffusion params_A U_A [a, b]
     = [1 / 10 * sqrt (1 / 2) * a,
        1 / 10 * sqrt (1 / 2) * (exp (- (1 / 10)) * a + sqrt (1 - (exp (- (1 / 10)))\<^sup>2) * b)]"
  by (simp add: spec_diffusion_def matvec_def h_of_A transpose_U_A) (simp add: params_A_def)

lemma sqrt_half_square: "sqrt (1 / 2) * sqrt (1 / 2 :: real) = 1 / 2"
  by simp

lemma scaled_square:
  fixes x y :: real
  shows "(1 / 10 * sqrt (1 / 2) * x) * (1 / 10 * sqrt (1 / 2) * y) = x * y / 200"
proof -
  have "(1 / 10 * sqrt (1 / 2) * x) * (1 / 10 * sqrt (1 / 2) * y)
          = (sqrt (1 / 2) * sqrt (1 / 2)) * (x * y / 100)"
    by (simp add: algebra_simps)
  then show ?thesis by simp
qed

lemma mean_diffusion_A_0: "expectation 2 (\<lambda>xi. diffusion params_A U_A xi ! 0) = 0"
  by (simp add: expectation_def all_xi_2 diffusion_A field_simps)

lemma cov_diffusion_A_00:
  "covariance 2 (diffusion params_A U_A) 0 0 = (1 + (exp (- (1 / 10)))\<^sup>2) / 200"
  unfolding covariance_def mean_diffusion_A_0
  by (simp add: expectation_def all_xi_2 diffusion_A scaled_square)
     (simp add: power2_eq_square algebra_simps)

lemma mean_spec_diffusion_A_0: "expectation 2 (\<lambda>xi. spec_diffusion params_A U_A xi ! 0) = 0"
  by (simp add: expectation_def all_xi_2 spec_diffusion_A field_simps)

lemma cov_spec_diffusion_A_00:
  "covariance 2 (spec_diffusion params_A U_A) 0 0 = 1 / 200"
  unfolding covariance_def mean_spec_diffusion_A_0
  by (simp add: expectation_def all_xi_2 spec_diffusion_A scaled_square)

lemma target_cov_A_00:
  "h_of params_A * (p_sigma params_A ! 0) * (p_sigma params_A ! 0) * (rho params_A ! 0 ! 0)
     = 1 / 200"
  by (simp add: h_of_A rho_A) (simp add: params_A_def)

text \<open>
  Claim C3 says that the diffusion increment is \<open>sigma * sqrt h * (U\<^sup>T xi)\<close> with
  \<open>rho = U\<^sup>T U\<close>, so that its covariance over the equiprobable shocks is
  \<open>h * sigma_i * sigma_j * rho_ij\<close>. The code multiplies by \<open>U\<close> itself. For two forward
  rates with \<open>beta = 0.1\<close>, \<open>delta = 1\<close>, \<open>h = 1/2\<close> and \<open>sigma = [0.1, 0.1]\<close>: the factor
  \<open>U_A\<close> is the upper Cholesky factor of \<open>rho\<close>, the code's increment differs from the
  specified one, the specified one has variance \<open>h * sigma_0^2 * rho_00 = 1/200\<close> in
  coordinate 0, and the code's has variance \<open>(1 + exp (-0.1)^2) / 200\<close>.
\<close>

theorem C3_diffusion_uses_U_not_transpose:
  "is_upper_cholesky U_A (rho params_A)
   \<and> diffusion params_A U_A [1, 1] \<noteq> spec_diffusion params_A U_A [1, 1]
   \<and> covariance 2 (spec_diffusion params_A U_A) 0 0
       = h_of params_A * (p_sigma params_A ! 0) * (p_sigma params_A ! 0) * (rho params_A ! 0 ! 0)
   \<and> covariance 2 (diffusion params_A U_A) 0 0 = (1 + (exp (- (1 / 10)))\<^sup>2) / 200
   \<and> covariance 2 (diffusion params_A U_A) 0 0
       \<noteq> h_of params_A * (p_sigma params_A ! 0) * (p_sigma params_A ! 0) * (rho params_A ! 0 ! 0)"
proof -
  have "diffusion params_A U_A [1, 1] \<noteq> spec_diffusion params_A U_A [1, 1]"
    by (simp add: diffusion_A spec_diffusion_A)
  moreover have "(1 + (exp (- (1 / 10) :: real))\<^sup>2) / 200 \<noteq> 1 / 200"
    by simp
  ultimately show ?thesis
    by (simp only: U_A_cholesky cov_diffusion_A_00 cov_spec_diffusion_A_00 target_cov_A_00)
       simp
qed

section \<open>Aggregation of the paths\<close>

lemma simulate_paths_length:
  "simulate_paths ext p U n g = Inr (pes, g') \<Longrightarrow> length pes = n"
  by (induction n arbitrary: g pes) (auto split: sum.splits prod.splits)

lemma mc_loop_paths:
  "mc_loop ext p U is a g = Inr (a', g') \<Longrightarrow>
     \<exists>pes. simulate_paths ext p U (length is) g = Inr (pes, g')
           \<and> a' = fold (\<lambda>(i, pe). record_path p i pe) (zip is pes) a"
proof (induction "is" arbitrary: a g)
  case Nil
  then show ?case by simp
next
  case (Cons i "is")
  from Cons.prems obtain pe g1 where
    sp: "simulate_path ext p U g = Inr (pe, g1)"
    and rest: "mc_loop ext p U is (record_path p i pe a) g1 = Inr (a', g')"
    by (auto split: sum.splits prod.splits)
  from Cons.IH [OF rest] obtain pes where
    "simulate_paths ext p U (length is) g1 = Inr (pes, g')"
    "a' = fold (\<lambda>(i, pe). record_path p i pe) (zip is pes) (record_path p i pe a)"
    by blast
  then show ?case using sp by (intro exI [of _ "pe # pes"]) simp
qed

lemma record_path_prices:
  assumes "prices a = xs @ 0 # zs"
  shows "prices (record_path p (length xs) pe a) = xs @ spec_contribution p pe # zs"
  using assms
  by (simp add: record_path_def Let_def spec_contribution_def P0_T0_def comp_def)

lemma record_path_exit_times:
  assumes "exit_times a = xs @ t # zs"
  shows "exit_times (record_path p (length xs) pe a)
           = xs @ (real (pe_exit_step pe) * h_of p) # zs"
  using assms by (simp add: record_path_def Let_def)

lemma fold_record_prices:
  assumes "prices a = xs @ replicate (length pes) 0"
  shows "prices (fold (\<lambda>(i, pe). record_path p i pe)
                   (zip [length xs..<length xs + length pes] pes) a)
         = xs @ map (spec_contribution p) pes"
  using assms
proof (induction pes arbitrary: xs a)
  case Nil
  then show ?case by simp
next
  case (Cons pe pes)
  have upt: "[length xs..<length xs + length (pe # pes)]
               = length xs # [length (xs @ [spec_contribution p pe])
                              ..<length (xs @ [spec_contribution p pe]) + length pes]"
    using upt_conv_Cons [of "length xs" "length xs + length (pe # pes)"] by simp
  have "prices (record_path p (length xs) pe a)
          = (xs @ [spec_contribution p pe]) @ replicate (length pes) 0"
    using record_path_prices [of a xs "replicate (length pes) 0" p pe] Cons.prems by simp
  from Cons.IH [OF this] show ?case
    unfolding upt by simp
qed

lemma fold_record_exit_times:
  assumes "exit_times a = xs @ replicate (length pes) 0"
  shows "exit_times (fold (\<lambda>(i, pe). record_path p i pe)
                   (zip [length xs..<length xs + length pes] pes) a)
         = xs @ map (\<lambda>pe. real (pe_exit_step pe) * h_of p) pes"
  using assms
proof (induction pes arbitrary: xs a)
  case Nil
  then show ?case by simp
next
  case (Cons pe pes)
  have upt: "[length xs..<length xs + length (pe # pes)]
               = length xs # [length (xs @ [real (pe_exit_step pe) * h_of p])
                              ..<length (xs @ [real (pe_exit_step pe) * h_of p]) + length pes]"
    using upt_conv_Cons [of "length xs" "length xs + length (pe # pes)"] by simp
  have "exit_times (record_path p (length xs) pe a)
          = (xs @ [real (pe_exit_step pe) * h_of p]) @ replicate (length pes) 0"
    using record_path_exit_times [of a xs 0 "replicate (length pes) 0" p pe] Cons.prems
    by simp
  from Cons.IH [OF this] show ?case
    unfolding upt by simp
qed

lemma path_loop_exit:
  "path_loop ext p U n k logL g = Inr (pe, g') \<Longrightarrow> k + n = p_M p \<Longrightarrow>
     (if pe_knocked_out pe then pe_exit_step pe < p_M p else pe_exit_step pe = p_M p)"
proof (induction n arbitrary: k logL g)
  case 0
  then show ?case by auto
next
  case (Suc n)
  show ?case
  proof (cases "step ext p U logL g")
    case (Inl e)
    with Suc.prems show ?thesis by simp
  next
    case (Inr r)
    obtain sr g1 where r: "r = (sr, g1)" by (cases r)
    show ?thesis
    proof (cases sr)
      case (Continue logL')
      with Suc.prems Inr r have "path_loop ext p U n (Suc k) logL' g1 = Inr (pe, g')"
        by simp
      from Suc.IH [OF this] Suc.prems(2) show ?thesis by simp
    next
      case Break
      with Suc.prems Inr r show ?thesis by auto
    qed
  qed
qed

lemma simulate_path_exit:
  "simulate_path ext p U g = Inr (pe, g') \<Longrightarrow>
     (if pe_knocked_out pe then pe_exit_step pe < p_M p else pe_exit_step pe = p_M p)"
  using path_loop_exit [of ext p U "p_M p" 0 "map ln (p_L0 p)" g pe g']
  by (simp add: simulate_path_def split: if_splits)

lemma simulate_paths_exit:
  "simulate_paths ext p U n g = Inr (pes, g') \<Longrightarrow>
     list_all (\<lambda>pe. if pe_knocked_out pe then pe_exit_step pe < p_M p
                    else pe_exit_step pe = p_M p) pes"
proof (induction n arbitrary: g pes)
  case 0
  then show ?case by simp
next
  case (Suc n)
  from Suc.prems obtain pe g1 pes' where
    a: "simulate_path ext p U g = Inr (pe, g1)"
    and b: "simulate_paths ext p U n g1 = Inr (pes', g')"
    and c: "pes = pe # pes'"
    by (auto split: sum.splits prod.splits)
  from simulate_path_exit [OF a] Suc.IH [OF b] c show ?case by simp
qed

text \<open>
  The first run of the notebook, which starts from result arrays of zeros: when it returns,
  it has simulated all \<open>n_paths\<close> paths, its price is the mean of the contributions and
  its mean exit time the mean of \<open>exit_step * h\<close>.
\<close>

lemma first_run_price_and_exit_time:
  assumes "monte_carlo ext p g = Inr (price, mean_exit_time)"
  shows "\<exists>U pes g'.
           cholesky_upper ext (rho p) = Some U
         \<and> simulate_paths ext p U (p_n_paths p) g = Inr (pes, g')
         \<and> length pes = p_n_paths p \<and> 0 < p_n_paths p
         \<and> list_all (\<lambda>pe. if pe_knocked_out pe then pe_exit_step pe < p_M p
                           else pe_exit_step pe = p_M p) pes
         \<and> price = sum_list (map (spec_contribution p) pes) / real (p_n_paths p)
         \<and> mean_exit_time
             = sum_list (map (\<lambda>pe. real (pe_exit_step pe) * h_of p) pes) / real (p_n_paths p)"
proof -
  from assms obtain U a g' where
    U: "cholesky_upper ext (rho p) = Some U"
    and loop: "mc_loop ext p U [0..<p_n_paths p] (zeros (p_n_paths p)) g = Inr (a, g')"
    and pr: "np_mean (prices a) = Some price"
    and et: "np_mean (exit_times a) = Some mean_exit_time"
    by (auto simp: monte_carlo_def split: if_splits option.splits sum.splits prod.splits)
  from mc_loop_paths [OF loop] obtain pes where
    pes: "simulate_paths ext p U (p_n_paths p) g = Inr (pes, g')"
    and a: "a = fold (\<lambda>(i, pe). record_path p i pe) (zip [0..<p_n_paths p] pes)
                  (zeros (p_n_paths p))"
    by auto
  have len: "length pes = p_n_paths p" using simulate_paths_length [OF pes] .
  have P: "prices a = map (spec_contribution p) pes"
    using fold_record_prices [of "zeros (p_n_paths p)" "[]" pes p] len
    by (simp add: a zeros_def)
  have E: "exit_times a = map (\<lambda>pe. real (pe_exit_step pe) * h_of p) pes"
    using fold_record_exit_times [of "zeros (p_n_paths p)" "[]" pes p] len
    by (simp add: a zeros_def)
  have "pes \<noteq> []"
    using pr P by (auto simp: np_mean_def split: if_splits)
  then have pos: "0 < p_n_paths p"
    using len by (cases pes) auto
  have "price = sum_list (map (spec_contribution p) pes) / real (p_n_paths p)"
    using pr P len by (auto simp: np_mean_def split: if_splits)
  moreover have "mean_exit_time
        = sum_list (map (\<lambda>pe. real (pe_exit_step pe) * h_of p) pes) / real (p_n_paths p)"
    using et E len by (auto simp: np_mean_def split: if_splits)
  ultimately show ?thesis
    using U pes len pos simulate_paths_exit [OF pes] by blast
qed

lemma params_S_fields:
  "p_N params_S = 2" "p_T0 params_S = 1" "p_delta params_S = 1" "p_M params_S = 2"
  "p_K params_S = 1 / 100" "p_Rup params_S = 3 / 40" "p_L0 params_S = [1 / 20, 1 / 20]"
  "p_sigma params_S = [0, 0]" "p_beta params_S = 1 / 10" "p_n_paths params_S = 2"
  by (simp_all add: params_S_def)

lemma h_of_S: "h_of params_S = 1 / 2"
  by (simp add: h_of_def params_S_def)

lemma coarse_bound_S: "coarse_bound params_S = 0"
  by (simp add: coarse_bound_def np_max_def params_S_def)

lemma drift_vec_S: "drift_vec params_S [a, b] = [0, 0]"
  by (simp add: drift_vec_def drift_mat_def full_mat_def outer_def tril_def rho_def
                times_of_def matvec_def upt_rec params_S_def)

lemma diffusion_S: "diffusion params_S U_A [a, b] = [0, 0]"
  by (simp add: diffusion_def matvec_def U_A_def params_S_def)

lemma step_S:
  "step (fixed_external converged converged (Some U_A) [1, 1] (1 / 2)) params_S U_A
        [ln (1 / 20), ln (1 / 20)] ()
     = Inr (Continue [ln (1 / 20), ln (1 / 20)], ())"
proof -
  have "coarse_check params_S [ln (1 / 20), ln (1 / 20)]"
    by (simp add: coarse_check_def coarse_bound_S np_max_def) (simp add: params_S_def)
  then show ?thesis
    by (simp add: step_def euler_update_def fixed_external_def drift_vec_S diffusion_S
                  params_S_fields)
qed

lemma simulate_path_S:
  "simulate_path (fixed_external converged converged (Some U_A) [1, 1] (1 / 2)) params_S U_A ()
     = Inr (\<lparr>pe_logL = [ln (1 / 20), ln (1 / 20)], pe_knocked_out = False, pe_exit_step = 2\<rparr>, ())"
proof -
  have M: "p_M params_S = Suc (Suc 0)" "p_sigma params_S \<noteq> []"
          "map ln (p_L0 params_S) = [ln (1 / 20), ln (1 / 20)]"
    by (simp_all add: params_S_def)
  show ?thesis
    unfolding simulate_path_def M by (simp add: step_S) (simp add: params_S_def)
qed

lemma contribution_S:
  "spec_contribution params_S
     \<lparr>pe_logL = [ln (1 / 20), ln (1 / 20)], pe_knocked_out = False, pe_exit_step = 2\<rparr>
     = 656 / 9261"
proof -
  have "R_swap [ln (1 / 20), ln (1 / 20)] 1 = 1 / 20"
    using R_swap_replicate [of 2 1 "1 / 20"] by (simp add: eval_nat_numeral)
  then show ?thesis
    by (simp add: spec_contribution_def cumprod_def params_S_def)
qed

lemma monte_carlo_S:
  "monte_carlo (fixed_external converged converged (Some U_A) [1, 1] (1 / 2)) params_S ()
     = Inr (656 / 9261, 1)"
proof -
  let ?ext = "fixed_external converged converged (Some U_A) [1, 1] (1 / 2)"
  let ?pe = "\<lparr>pe_logL = [ln (1 / 20), ln (1 / 20)], pe_knocked_out = False, pe_exit_step = 2\<rparr>"
  have c: "cholesky_upper ?ext (rho params_S) = Some U_A"
    by (simp add: fixed_external_def)
  have idx: "[0..<2] = [0, Suc 0]" by (simp add: upt_rec)
  define a where "a = record_path params_S (Suc 0) ?pe (record_path params_S 0 ?pe (zeros 2))"
  have loop: "mc_loop ?ext params_S U_A [0..<2] (zeros 2) () = Inr (a, ())"
    unfolding idx by (simp add: simulate_path_S a_def)
  have z: "prices (zeros 2) = [] @ 0 # [0]" "exit_times (zeros 2) = [] @ 0 # [0]"
    by (simp_all add: zeros_def eval_nat_numeral)
  have p0: "prices (record_path params_S 0 ?pe (zeros 2)) = [656 / 9261] @ 0 # []"
    using record_path_prices [OF z(1), of params_S ?pe] by (simp add: contribution_S)
  have e0: "exit_times (record_path params_S 0 ?pe (zeros 2)) = [1] @ 0 # []"
    using record_path_exit_times [OF z(2), of params_S ?pe] by (simp add: h_of_S)
  have pa: "prices a = [656 / 9261, 656 / 9261]"
    using record_path_prices [OF p0, of params_S ?pe] by (simp add: contribution_S a_def)
  have ea: "exit_times a = [1, 1]"
    using record_path_exit_times [OF e0, of params_S ?pe] by (simp add: h_of_S a_def)
  show ?thesis
    by (simp add: monte_carlo_def params_S_fields c loop pa ea np_mean_def)
qed

lemma first_run_zero_volatility:
  "monte_carlo (fixed_external converged converged (Some U_A) [1, 1] (1 / 2)) params_S ()
     = Inr (656 / 9261, 1)
   \<and> (\<exists>U pes g'.
           cholesky_upper (fixed_external converged converged (Some U_A) [1, 1] (1 / 2))
             (rho params_S) = Some U
         \<and> simulate_paths (fixed_external converged converged (Some U_A) [1, 1] (1 / 2))
             params_S U (p_n_paths params_S) () = Inr (pes, g')
         \<and> length pes = p_n_paths params_S \<and> 0 < p_n_paths params_S
         \<and> list_all (\<lambda>pe. if pe_knocked_out pe then pe_exit_step pe < p_M params_S
                           else pe_exit_step pe = p_M params_S) pes
         \<and> 656 / 9261 = sum_list (map (spec_contribution params_S) pes)
                           / real (p_n_paths params_S)
         \<and> 1 = sum_list (map (\<lambda>pe. real (pe_exit_step pe) * h_of params_S) pes)
                 / real (p_n_paths params_S))"
  using monte_carlo_S first_run_price_and_exit_time [OF monte_carlo_S] by (rule conjI)

section \<open>Bounds on the swap rate\<close>

lemma cumprod_from_pos:
  "0 < a \<Longrightarrow> list_all (\<lambda>q. 0 < q) qs \<Longrightarrow> list_all (\<lambda>c. 0 < c) (cumprod_from a qs)"
  by (induction qs arbitrary: a) simp_all

lemma prod_list_pos_real: "list_all (\<lambda>q. 0 < (q::real)) qs \<Longrightarrow> 0 < prod_list qs"
  by (induction qs) simp_all

lemma prod_list_ge_one: "list_all (\<lambda>q. 1 \<le> (q::real)) qs \<Longrightarrow> 1 \<le> prod_list qs"
proof (induction qs)
  case Nil
  then show ?case by simp
next
  case (Cons q qs)
  then have "1 * 1 \<le> q * prod_list qs" by (intro mult_mono) simp_all
  then show ?case by simp
qed

lemma annuity_sum_nonneg:
  "0 < a \<Longrightarrow> list_all (\<lambda>q. 0 < q) qs \<Longrightarrow> 0 \<le> sum_list (map (\<lambda>c. 1 / c) (cumprod_from a qs))"
  by (induction qs arbitrary: a) (simp_all add: add_nonneg_nonneg)

lemma annuity_sum_pos:
  "0 < a \<Longrightarrow> list_all (\<lambda>q. 0 < q) qs \<Longrightarrow> qs \<noteq> [] \<Longrightarrow>
     0 < sum_list (map (\<lambda>c. 1 / c) (cumprod_from a qs))"
  by (cases qs) (simp_all add: add_pos_nonneg annuity_sum_nonneg)

text \<open>The floating leg is at most the largest forward times the annuity.\<close>

lemma floating_leg_le:
  assumes "0 < a" "list_all (\<lambda>q. 1 \<le> q \<and> q - 1 \<le> m) qs"
  shows "(1 - 1 / prod_list qs) / a \<le> m * sum_list (map (\<lambda>c. 1 / c) (cumprod_from a qs))"
  using assms
proof (induction qs arbitrary: a)
  case Nil
  then show ?case by simp
next
  case (Cons q qs)
  then have q: "1 \<le> q" "q - 1 \<le> m" and rest: "list_all (\<lambda>q. 1 \<le> q \<and> q - 1 \<le> m) qs"
    by simp_all
  have qpos: "0 < q" using q by simp
  have aq: "0 < a * q" using Cons.prems(1) qpos by simp
  have P: "0 < prod_list qs"
    using rest prod_list_ge_one [of qs] by (simp add: list_all_iff less_le_trans [OF zero_less_one])
  have split: "(1 - 1 / prod_list (q # qs)) / a
                 = (q - 1) / (a * q) + (1 - 1 / prod_list qs) / (a * q)"
    using Cons.prems(1) qpos P by (simp add: field_simps)
  have "(q - 1) / (a * q) \<le> m / (a * q)"
    using q aq by (intro divide_right_mono) simp_all
  moreover have "(1 - 1 / prod_list qs) / (a * q)
                   \<le> m * sum_list (map (\<lambda>c. 1 / c) (cumprod_from (a * q) qs))"
    using Cons.IH [OF aq rest] .
  ultimately show ?case
    unfolding split by (simp add: algebra_simps)
qed

lemma fold_max_ge: "a \<le> fold max ys (a::real)"
  by (induction ys arbitrary: a) (auto intro: order_trans [OF max.cobounded2])

lemma fold_max_mem: "y \<in> set ys \<Longrightarrow> y \<le> fold max ys (a::real)"
proof (induction ys arbitrary: a)
  case Nil
  then show ?case by simp
next
  case (Cons z zs)
  show ?case
  proof (cases "y = z")
    case True
    have "z \<le> max z a" by simp
    also have "\<dots> \<le> fold max zs (max z a)" by (rule fold_max_ge)
    finally show ?thesis using True by simp
  next
    case False
    with Cons.prems have "y \<in> set zs" by simp
    from Cons.IH [OF this] show ?thesis by simp
  qed
qed

lemma np_max_ge: "x \<in> set xs \<Longrightarrow> x \<le> np_max xs"
  unfolding np_max_def by (cases xs) (auto intro: fold_max_ge fold_max_mem)

lemma R_swap_le_max:
  assumes "0 < delta" "logL \<noteq> []"
  shows "R_swap logL delta \<le> exp (np_max logL)"
proof -
  define qs where "qs = map (\<lambda>l. 1 + delta * l) (map exp logL)"
  define m where "m = exp (np_max logL)"
  have all: "list_all (\<lambda>q. 1 \<le> q \<and> q - 1 \<le> delta * m) qs"
    using assms(1) np_max_ge [of _ logL]
    by (auto simp: qs_def m_def list_all_iff)
  then have pos: "list_all (\<lambda>q. 0 < q) qs"
    by (auto simp: list_all_iff)
  have ne: "qs \<noteq> []" using assms(2) by (simp add: qs_def)
  define A where "A = sum_list (map (\<lambda>c. 1 / c) (cumprod qs))"
  have A: "0 < A"
    unfolding A_def cumprod_def using annuity_sum_pos [of 1 qs] pos ne by simp
  have "1 - 1 / prod_list qs \<le> delta * m * A"
    using floating_leg_le [of 1 "delta * m" qs] all by (simp add: A_def cumprod_def)
  then have "(1 - 1 / prod_list qs) / (delta * A) \<le> m"
    using A assms(1) by (simp add: field_simps)
  then show ?thesis
    unfolding R_swap_def Let_def qs_def [symmetric] A_def [symmetric] m_def [symmetric] .
qed

lemma prod_list_mono_real:
  "list_all2 (\<lambda>a b. 0 < a \<and> a \<le> (b::real)) as bs \<Longrightarrow> prod_list as \<le> prod_list bs"
proof (induction rule: list_all2_induct)
  case Nil
  then show ?case by simp
next
  case (Cons a as b bs)
  have "0 \<le> prod_list as"
    using Cons.hyps(2) prod_list_pos_real [of as]
    by (simp add: list_all2_conv_all_nth list_all_length less_imp_le)
  then show ?case using Cons by (simp add: mult_mono less_imp_le)
qed

lemma annuity_antimono:
  assumes "0 < a" "a \<le> b" "list_all2 (\<lambda>x y. 0 < x \<and> x \<le> y) as bs"
  shows "sum_list (map (\<lambda>c. 1 / c) (cumprod_from b bs))
           \<le> sum_list (map (\<lambda>c. 1 / c) (cumprod_from a as))"
  using assms(3,1,2)
proof (induction arbitrary: a b rule: list_all2_induct)
  case Nil
  then show ?case by simp
next
  case (Cons x xs y ys)
  have ax: "0 < a * x" using Cons by simp
  have le: "a * x \<le> b * y" using Cons by (intro mult_mono) simp_all
  have "1 / (b * y) \<le> 1 / (a * x)"
    using ax le by (simp add: frac_le)
  moreover have "sum_list (map (\<lambda>c. 1 / c) (cumprod_from (b * y) ys))
                   \<le> sum_list (map (\<lambda>c. 1 / c) (cumprod_from (a * x) xs))"
    using Cons.IH [OF ax le] .
  ultimately show ?case by simp
qed

lemma R_swap_mono:
  assumes "0 < delta" "list_all2 (\<le>) xs ys" "xs \<noteq> []"
  shows "R_swap xs delta \<le> R_swap ys delta"
proof -
  define qx where "qx = map (\<lambda>l. 1 + delta * l) (map exp xs)"
  define qy where "qy = map (\<lambda>l. 1 + delta * l) (map exp ys)"
  have len: "length xs = length ys" using assms(2) by (rule list_all2_lengthD)
  have rel: "list_all2 (\<lambda>a b. 0 < a \<and> a \<le> b) qx qy"
    using assms(1,2) len
    by (auto simp: qx_def qy_def list_all2_conv_all_nth add_pos_pos)
  have px: "list_all (\<lambda>q. 0 < q) qx" "list_all (\<lambda>q. 0 < q) qy"
    using assms(1) by (auto simp: qx_def qy_def list_all_iff add_pos_pos)
  have ne: "qy \<noteq> []" using assms(3) len by (auto simp: qy_def)
  define Ax where "Ax = sum_list (map (\<lambda>c. 1 / c) (cumprod qx))"
  define Ay where "Ay = sum_list (map (\<lambda>c. 1 / c) (cumprod qy))"
  have Ay: "0 < Ay" unfolding Ay_def cumprod_def using annuity_sum_pos [of 1 qy] px ne by simp
  have AyAx: "Ay \<le> Ax"
    unfolding Ax_def Ay_def cumprod_def using annuity_antimono [of 1 1 qx qy] rel by simp
  have one: "1 \<le> prod_list qx"
    using assms(1) by (intro prod_list_ge_one) (auto simp: qx_def list_all_iff)
  have Px: "0 < prod_list qx" using one by simp
  have PxPy: "prod_list qx \<le> prod_list qy" using rel by (rule prod_list_mono_real)
  have n0: "0 \<le> 1 - 1 / prod_list qx" using one by simp
  have nle: "1 - 1 / prod_list qx \<le> 1 - 1 / prod_list qy"
    using Px PxPy by (simp add: frac_le)
  have "0 \<le> 1 - 1 / prod_list qy" using n0 nle by simp
  moreover have "0 < delta * Ay" "delta * Ay \<le> delta * Ax"
    using assms(1) Ay AyAx by simp_all
  ultimately have "(1 - 1 / prod_list qx) / (delta * Ax) \<le> (1 - 1 / prod_list qy) / (delta * Ay)"
    using nle by (intro frac_le) simp_all
  then show ?thesis
    unfolding R_swap_def Let_def qx_def [symmetric] qy_def [symmetric]
              Ax_def [symmetric] Ay_def [symmetric] .
qed

lemma np_max_nonneg:
  assumes "xs \<noteq> []" "list_all (\<lambda>s. 0 \<le> s) xs"
  shows "0 \<le> np_max xs"
proof -
  have "hd xs \<in> set xs" using assms(1) by simp
  then have "0 \<le> hd xs" "hd xs \<le> np_max xs"
    using assms(2) by (auto simp: list_all_iff intro: np_max_ge)
  then show ?thesis by simp
qed

lemma coarse_bound_nonneg:
  assumes "p_sigma p \<noteq> []" "list_all (\<lambda>s. 0 \<le> s) (p_sigma p)" "0 \<le> h_of p" "1 \<le> p_N p"
  shows "0 \<le> coarse_bound p"
proof -
  define s where "s = np_max (p_sigma p)"
  define n where "n = real (p_N p)"
  have s: "0 \<le> s" unfolding s_def using assms(1,2) by (rule np_max_nonneg)
  have n: "1 \<le> n" using assms(4) by (simp add: n_def)
  have "0 \<le> s\<^sup>2 * h_of p * (n - 1 / 2)"
    using assms(3) n by (intro mult_nonneg_nonneg) simp_all
  moreover have "0 \<le> s * sqrt (h_of p * n)"
    using s assms(3) n by (intro mult_nonneg_nonneg) simp_all
  ultimately have "0 \<le> s\<^sup>2 * h_of p * n - 0.5 * s\<^sup>2 * h_of p + s * sqrt (h_of p * n)"
    by (simp add: algebra_simps)
  then show ?thesis
    by (simp add: coarse_bound_def Let_def s_def n_def)
qed

lemma length_logL_pert:
  "length logL = p_N p \<Longrightarrow> length (p_sigma p) = p_N p \<Longrightarrow> length (logL_pert p logL) = p_N p"
  by (simp add: logL_pert_def Let_def)

lemma logL_pert_nth:
  assumes "length logL = p_N p" "length (p_sigma p) = p_N p" "i < p_N p"
  shows "logL_pert p logL ! i
           = ln (exp (logL ! i)
                 * (1 + (real i + 1) * (p_sigma p ! i) * np_max (p_sigma p) * h_of p
                      + (p_sigma p ! i) * sqrt ((real (p_N p) - real i) * h_of p)))"
  using assms by (simp add: logL_pert_def Let_def)

lemma logL_pert_ge:
  assumes "length logL = p_N p" "length (p_sigma p) = p_N p"
      and "list_all (\<lambda>s. 0 \<le> s) (p_sigma p)" "0 \<le> h_of p" "p_sigma p \<noteq> []"
  shows "list_all2 (\<le>) logL (logL_pert p logL)"
proof -
  have sm: "0 \<le> np_max (p_sigma p)" using assms(5,3) by (rule np_max_nonneg)
  have "logL ! i \<le> logL_pert p logL ! i" if i: "i < p_N p" for i
  proof -
    have si: "0 \<le> p_sigma p ! i"
      using assms(2,3) i by (simp add: list_all_length)
    define dw where "dw = (real i + 1) * (p_sigma p ! i) * np_max (p_sigma p) * h_of p"
    define df where "df = (p_sigma p ! i) * sqrt ((real (p_N p) - real i) * h_of p)"
    have dw: "0 \<le> dw" unfolding dw_def using si sm assms(4) by simp
    have "0 \<le> (real (p_N p) - real i) * h_of p"
      using i assms(4) by (intro mult_nonneg_nonneg) simp_all
    then have df: "0 \<le> df" unfolding df_def using si by simp
    have one: "1 \<le> 1 + dw + df" using dw df by simp
    have "logL_pert p logL ! i = ln (exp (logL ! i) * (1 + dw + df))"
      using logL_pert_nth [OF assms(1,2) i] by (simp add: dw_def df_def)
    also have "\<dots> = logL ! i + ln (1 + dw + df)"
      using one by (simp add: ln_mult)
    finally show ?thesis using one by simp
  qed
  then show ?thesis
    using assms(1,2) by (simp add: list_all2_conv_all_nth length_logL_pert)
qed

lemma breached_state_fails_checks:
  assumes "length logL = p_N p" "length (p_sigma p) = p_N p" "1 \<le> p_N p"
      and "list_all (\<lambda>s. 0 \<le> s) (p_sigma p)" "0 \<le> h_of p" "0 < p_delta p" "0 < p_Rup p"
      and "p_Rup p \<le> R_swap logL (p_delta p)"
  shows "\<not> coarse_check p logL" and "\<not> fine_check p logL"
proof -
  have ne: "logL \<noteq> []" "p_sigma p \<noteq> []" using assms(1,2,3) by auto
  have "p_Rup p \<le> exp (np_max logL)"
    using assms(8) R_swap_le_max [OF assms(6) ne(1)] by simp
  then have "ln (p_Rup p) \<le> ln (exp (np_max logL))"
    using assms(7) by (simp only: ln_le_cancel_iff exp_gt_zero)
  then have "ln (p_Rup p) \<le> np_max logL" by simp
  moreover have "0 \<le> coarse_bound p"
    using ne(2) assms(4,5,3) by (rule coarse_bound_nonneg)
  ultimately show "\<not> coarse_check p logL"
    by (simp add: coarse_check_def)
  have "R_swap logL (p_delta p) \<le> R_swap (logL_pert p logL) (p_delta p)"
    using assms(6) logL_pert_ge [OF assms(1,2,4,5) ne(2)] ne(1) by (rule R_swap_mono)
  then show "\<not> fine_check p logL"
    using assms(8) by (simp add: fine_check_def)
qed

section \<open>A barrier breached at time 0\<close>

lemma valid_params_h: "valid_params p \<Longrightarrow> 0 < h_of p"
  by (simp add: valid_params_def h_of_def)

lemma breached_initial_state:
  assumes "valid_params p" "p_Rup p \<le> R_swap (map ln (p_L0 p)) (p_delta p)"
  shows "\<not> coarse_check p (map ln (p_L0 p))" "\<not> fine_check p (map ln (p_L0 p))"
proof -
  have h: "0 \<le> h_of p" using valid_params_h [OF assms(1)] by simp
  show "\<not> coarse_check p (map ln (p_L0 p))"
    using assms h by (intro breached_state_fails_checks(1)) (simp_all add: valid_params_def)
  show "\<not> fine_check p (map ln (p_L0 p))"
    using assms h by (intro breached_state_fails_checks(2)) (simp_all add: valid_params_def)
qed

lemma step_breached:
  assumes "valid_params p" "p_Rup p \<le> R_swap (map ln (p_L0 p)) (p_delta p)"
  shows "step ext p U (map ln (p_L0 p)) g = boundary_zone ext p U (map ln (p_L0 p)) g"
  using breached_initial_state [OF assms] by (simp add: step_def)

lemma simulate_path_breached:
  assumes "valid_params p" "p_Rup p \<le> R_swap (map ln (p_L0 p)) (p_delta p)"
  shows "simulate_path ext p U g =
           (case boundary_zone ext p U (map ln (p_L0 p)) g of
              Inl e \<Rightarrow> Inl e
            | Inr (Break, g') \<Rightarrow>
                Inr (\<lparr>pe_logL = map ln (p_L0 p), pe_knocked_out = True, pe_exit_step = 0\<rparr>, g')
            | Inr (Continue logL', g') \<Rightarrow> path_loop ext p U (p_M p - 1) 1 logL' g')"
proof -
  obtain m where M: "p_M p = Suc m"
    using assms(1) by (cases "p_M p") (auto simp: valid_params_def)
  have ne: "p_sigma p \<noteq> []"
    using assms(1) by (auto simp: valid_params_def)
  show ?thesis
    using ne
    by (simp add: simulate_path_def M step_breached [OF assms]
             split: sum.split prod.split step_result.split)
qed

lemma monte_carlo_after_setup:
  assumes "valid_params p" "cholesky_upper ext (rho p) = Some U"
  shows "monte_carlo ext p g =
           (case mc_loop ext p U [0..<p_n_paths p] (zeros (p_n_paths p)) g of
              Inl e \<Rightarrow> Inl e
            | Inr (a, g') \<Rightarrow>
                (case (np_mean (prices a), np_mean (exit_times a)) of
                   (Some price, Some mean_exit_time) \<Rightarrow> Inr (price, mean_exit_time)
                 | _ \<Rightarrow> Inl InvalidValue))"
proof -
  have "p_L0 p \<noteq> []" "p_M p \<noteq> 0"
    using assms(1) by (auto simp: valid_params_def)
  then show ?thesis using assms(2) by (simp add: monte_carlo_def)
qed

lemma params_B_fields:
  "p_N params_B = 2" "p_T0 params_B = 1" "p_delta params_B = 1" "p_M params_B = 2"
  "p_K params_B = 1 / 100" "p_Rup params_B = 1 / 25" "p_L0 params_B = [1 / 20, 1 / 20]"
  "p_sigma params_B = [1 / 10, 1 / 10]" "p_beta params_B = 1 / 10" "p_n_paths params_B = 2"
  by (simp_all add: params_B_def)

lemma valid_params_B: "valid_params params_B"
  by (simp add: valid_params_def params_B_fields)

lemma swap_rate_B: "R_swap (map ln (p_L0 params_B)) (p_delta params_B) = 1 / 20"
  using R_swap_replicate [of 2 1 "1 / 20"] by (simp add: params_B_fields eval_nat_numeral)

lemma breached_B: "p_Rup params_B \<le> R_swap (map ln (p_L0 params_B)) (p_delta params_B)"
  by (simp add: swap_rate_B) (simp add: params_B_fields)

lemma lambda_k_B: "lambda_k params_B = sqrt 2 * (43 / 400)"
proof -
  have "h_of params_B = 1 / 2" by (simp add: h_of_def params_B_fields)
  then have "coarse_bound params_B = 43 / 400"
    by (simp add: coarse_bound_def np_max_def Let_def power2_eq_square params_B_fields)
  then show ?thesis by (simp add: lambda_k_def params_B_fields)
qed

lemma dist_to_nonneg: "0 \<le> dist_to a b"
  unfolding dist_to_def linalg_norm_def
  by (intro real_sqrt_ge_zero sum_list_nonneg) auto






section \<open>The divisors of the boundary zone\<close>

lemma coarse_bound_pos:
  assumes "0 < np_max (p_sigma p)" "0 < h_of p" "1 \<le> p_N p"
  shows "0 < coarse_bound p"
proof -
  define s where "s = np_max (p_sigma p)"
  define n where "n = real (p_N p)"
  have s: "0 < s" using assms(1) by (simp add: s_def)
  have n: "1 \<le> n" using assms(3) by (simp add: n_def)
  have "0 \<le> s\<^sup>2 * h_of p * (n - 1 / 2)"
    using assms(2) n by (intro mult_nonneg_nonneg) simp_all
  moreover have "0 < s * sqrt (h_of p * n)"
    using s assms(2) n by (intro mult_pos_pos) simp_all
  ultimately have "0 < s\<^sup>2 * h_of p * n - 0.5 * s\<^sup>2 * h_of p + s * sqrt (h_of p * n)"
    by (simp add: algebra_simps)
  then show ?thesis
    by (simp add: coarse_bound_def Let_def s_def n_def)
qed

lemma lambda_k_pos:
  assumes "0 < np_max (p_sigma p)" "0 < h_of p" "1 \<le> p_N p"
  shows "0 < lambda_k p"
  using coarse_bound_pos [OF assms] assms(3) by (simp add: lambda_k_def)

lemma boundary_zone_cases:
  assumes "project_to_barrier2 ext logL (p_delta p) (p_Rup p) = Inr logL_pi"
  shows "boundary_zone ext p U logL g =
     (let dist = dist_to logL_pi logL; u = fst (random_rand ext g); g' = snd (random_rand ext g)
      in if dist + lambda_k p \<noteq> 0 \<and> u < lambda_k p / (dist + lambda_k p) then Inr (Break, g')
         else if dist = 0 then Inl InvalidValue
         else Inr (Continue (fst (euler_update ext p U (drift_vec p logL)
                      (map2 (+) logL (map (\<lambda>d. (lambda_k p / dist) * d) (map2 (-) logL_pi logL))) g')),
                   snd (euler_update ext p U (drift_vec p logL)
                      (map2 (+) logL (map (\<lambda>d. (lambda_k p / dist) * d) (map2 (-) logL_pi logL))) g')))"
  by (simp add: boundary_zone_def assms Let_def split: prod.splits)

lemma positive_volatility_divisors:
  assumes "0 < np_max (p_sigma p)" "0 < h_of p" "1 \<le> p_N p"
      and "fst (random_rand ext g) < 1"
      and "project_to_barrier2 ext logL (p_delta p) (p_Rup p) = Inr logL_pi"
  shows "0 < dist_to logL_pi logL + lambda_k p
       \<and> boundary_zone ext p U logL g \<noteq> Inl InvalidValue
       \<and> (\<forall>logL' g'. boundary_zone ext p U logL g = Inr (Continue logL', g')
             \<longrightarrow> 0 < dist_to logL_pi logL)"
proof -
  define d where "d = dist_to logL_pi logL"
  define u where "u = fst (random_rand ext g)"
  have l: "0 < lambda_k p" using assms(1-3) by (rule lambda_k_pos)
  have d: "0 \<le> d" unfolding d_def by (rule dist_to_nonneg)
  have sum: "0 < d + lambda_k p" using d l by simp
  have zero: "u < lambda_k p / (d + lambda_k p)" if "d = 0"
    using that l assms(4) by (simp add: u_def)
  have bz: "boundary_zone ext p U logL g =
     (if u < lambda_k p / (d + lambda_k p) then Inr (Break, snd (random_rand ext g))
      else if d = 0 then Inl InvalidValue
      else Inr (Continue (fst (euler_update ext p U (drift_vec p logL)
                      (map2 (+) logL (map (\<lambda>x. (lambda_k p / d) * x) (map2 (-) logL_pi logL)))
                      (snd (random_rand ext g)))),
                   snd (euler_update ext p U (drift_vec p logL)
                      (map2 (+) logL (map (\<lambda>x. (lambda_k p / d) * x) (map2 (-) logL_pi logL)))
                      (snd (random_rand ext g)))))"
    using sum unfolding boundary_zone_cases [OF assms(5)] Let_def d_def [symmetric] u_def [symmetric]
    by simp
  have a: "boundary_zone ext p U logL g \<noteq> Inl InvalidValue"
    unfolding bz using zero by auto
  have b: "0 < d" if "boundary_zone ext p U logL g = Inr (Continue logL', g')" for logL' g'
    using that zero d unfolding bz by (cases "d = 0") (auto split: if_splits)
  from sum a b show ?thesis unfolding d_def by blast
qed

lemma params_Z_fields:
  "p_N params_Z = 2" "p_T0 params_Z = 1" "p_delta params_Z = 1" "p_M params_Z = 2"
  "p_K params_Z = 1 / 100" "p_Rup params_Z = 3 / 40"
  "p_L0 params_Z = [923 / 840 * exp (- 1), 1 / 20]"
  "p_sigma params_Z = [0, 0]" "p_beta params_Z = 1 / 10" "p_n_paths params_Z = 2"
  by (simp_all add: params_Z_def)

lemma valid_params_Z: "valid_params params_Z"
  by (simp add: valid_params_def params_Z_fields)

lemma initial_state_Z:
  "map ln (p_L0 params_Z) = logLpi_of_tail [ln (1 / 20)] 1 (3 / 40)"
proof -
  have "ln (923 / 840 * exp (- 1 :: real)) = ln (923 / 840) + ln (exp (- 1))"
    using ln_mult [of "923 / 840 :: real" "exp (- 1)"] by simp
  then have "ln (923 / 840 * exp (- 1 :: real)) = ln (923 / 840) - 1"
    by (simp only: ln_exp)
  then show ?thesis
    by (simp add: params_Z_fields logLpi_of_tail_def logL0_of_tail_at_input)
qed

lemma breached_Z: "p_Rup params_Z \<le> R_swap (map ln (p_L0 params_Z)) (p_delta params_Z)"
  using fast_projection_above_barrier [of "ln (1 / 20)"]
  unfolding initial_state_Z by (simp add: params_Z_fields)

lemma lambda_k_Z: "lambda_k params_Z = 0"
  by (simp add: lambda_k_def coarse_bound_def np_max_def params_Z_fields)

lemma project_Z:
  "project_to_barrier2 (fixed_external converged converged (Some U_A) [1, 1] (1 / 2))
       (map ln (p_L0 params_Z)) (p_delta params_Z) (p_Rup params_Z)
     = Inr (map ln (p_L0 params_Z))"
  unfolding initial_state_Z
  by (simp add: project_to_barrier2_def fixed_external_def converged_def params_Z_fields
                logLpi_of_tail_def Let_def)

lemma dist_to_self: "dist_to [a, b] [a, b] = 0"
  by (simp add: dist_to_def linalg_norm_def)

lemma dist_Z: "dist_to (map ln (p_L0 params_Z)) (map ln (p_L0 params_Z)) = 0"
  by (simp add: params_Z_fields dist_to_self)

lemma step_Z:
  "step (fixed_external converged converged (Some U_A) [1, 1] (1 / 2)) params_Z U_A
        (map ln (p_L0 params_Z)) ()
     = Inl InvalidValue"
  unfolding step_breached [OF valid_params_Z breached_Z] boundary_zone_cases [OF project_Z]
  by (simp add: dist_Z lambda_k_Z)

lemma monte_carlo_Z:
  "monte_carlo (fixed_external converged converged (Some U_A) [1, 1] (1 / 2)) params_Z ()
     = Inl InvalidValue"
proof -
  let ?ext = "fixed_external converged converged (Some U_A) [1, 1] (1 / 2)"
  have c: "cholesky_upper ?ext (rho params_Z) = Some U_A"
    by (simp add: fixed_external_def)
  have bz: "boundary_zone ?ext params_Z U_A (map ln (p_L0 params_Z)) () = Inl InvalidValue"
    using step_Z unfolding step_breached [OF valid_params_Z breached_Z] .
  have sp: "simulate_path ?ext params_Z U_A () = Inl InvalidValue"
    by (simp add: simulate_path_breached [OF valid_params_Z breached_Z] bz)
  have idx: "[0..<2] = [0, Suc 0]" by (simp add: upt_rec)
  show ?thesis
    by (simp add: monte_carlo_after_setup [OF valid_params_Z c] params_Z_fields(10) idx sp)
qed

text \<open>
  The counterexample to claim C10 as stated: with zero volatilities \<open>lambda_k = 0\<close>; the
  initial state of \<open>params_Z\<close> fails both checks, the optimiser started at the tail of the
  state stays there, the projection is the state itself, \<open>dist = 0\<close>, the knock-out test
  compares with \<open>0 / 0\<close> and the pull divides by \<open>dist = 0\<close>.
\<close>

theorem C10_zero_divisor_counterexample:
  "\<not> coarse_check params_Z (map ln (p_L0 params_Z))
   \<and> \<not> fine_check params_Z (map ln (p_L0 params_Z))
   \<and> project_to_barrier2 (fixed_external converged converged (Some U_A) [1, 1] (1 / 2))
         (map ln (p_L0 params_Z)) (p_delta params_Z) (p_Rup params_Z)
       = Inr (map ln (p_L0 params_Z))
   \<and> dist_to (map ln (p_L0 params_Z)) (map ln (p_L0 params_Z)) = 0
   \<and> lambda_k params_Z = 0
   \<and> step (fixed_external converged converged (Some U_A) [1, 1] (1 / 2)) params_Z U_A
          (map ln (p_L0 params_Z)) ()
       = Inl InvalidValue
   \<and> monte_carlo (fixed_external converged converged (Some U_A) [1, 1] (1 / 2)) params_Z ()
       = Inl InvalidValue"
  using breached_initial_state [OF valid_params_Z breached_Z] project_Z dist_Z lambda_k_Z
        step_Z monte_carlo_Z
  by (intro conjI)

lemma ln_twenty: "2 \<le> ln (20 :: real)"
proof -
  have "exp (2 :: real) = exp 1 * exp 1" by (simp add: exp_add [symmetric])
  also have "\<dots> \<le> 3 * 3" by (intro mult_mono exp_le) simp_all
  finally have "exp (2 :: real) \<le> 20" by simp
  then show ?thesis by (simp add: ln_ge_iff)
qed

lemma dist_B:
  "1 \<le> dist_to (logLpi_of_tail [ln (1 / 20)] 1 (1 / 25)) [ln (1 / 20), ln (1 / 20)]"
proof -
  have z0: "logL0_of_tail [ln (1 / 20)] 1 (1 / 25) = ln (541 / 525) - 1"
    by (simp add: logL0_of_tail_def cumprod_def)
  have a: "ln (1 / 20 :: real) = - ln 20" by (simp add: ln_div)
  have b: "0 \<le> ln (541 / 525 :: real)" by simp
  have "1 \<le> ln (541 / 525) - 1 - ln (1 / 20 :: real)"
    using ln_twenty a b by linarith
  then have "1 \<le> \<bar>ln (541 / 525) - 1 - ln (1 / 20 :: real)\<bar>" by simp
  then show ?thesis
    by (simp add: dist_to_def linalg_norm_def logLpi_of_tail_def z0)
qed

lemma lambda_k_B_small: "lambda_k params_B \<le> 1 / 2"
proof -
  have "sqrt 2 \<le> (2 :: real)" by (rule real_le_lsqrt) simp_all
  then show ?thesis by (simp add: lambda_k_B)
qed

lemma np_max_sigma_B: "np_max (p_sigma params_B) = 1 / 10"
  by (simp add: np_max_def params_B_fields)

section \<open>Failure of the projection\<close>








lemma h_of_B: "h_of params_B = 1 / 2"
  by (simp add: h_of_def params_B_fields)

lemma rho_B: "rho params_B = [[1, exp (- (1 / 10))], [exp (- (1 / 10)), 1]]"
  by (simp add: rho_def times_of_def params_B_fields upt_rec)

lemma drift_vec_B:
  "drift_vec params_B [ln (1 / 20), ln (1 / 20)]
     = [1 / 4200 - 1 / 400, (exp (- (1 / 10)) + 1) / 4200 - 1 / 400]"
  by (simp add: drift_vec_def drift_mat_def full_mat_def outer_def tril_def rho_B matvec_def
                h_of_B params_B_fields power2_eq_square field_simps)

lemma diffusion_B:
  "diffusion params_B U_A [1, 1]
     = [1 / 10 * sqrt (1 / 2) * (1 + exp (- (1 / 10))),
        1 / 10 * sqrt (1 / 2) * sqrt (1 - (exp (- (1 / 10)))\<^sup>2)]"
  by (simp add: diffusion_def matvec_def h_of_B U_A_def params_B_fields)

lemma projection_B_offset:
  "logLpi_of_tail [ln (1 / 20)] 1 (1 / 25)
     = [ln (1 / 20) + (ln (541 / 525) - 1 - ln (1 / 20)), ln (1 / 20)]"
  by (simp add: logLpi_of_tail_def logL0_of_tail_def cumprod_def)

lemma offset_B: "1 \<le> ln (541 / 525) - 1 - ln (1 / 20 :: real)"
proof -
  have a: "ln (1 / 20 :: real) = - ln 20" by (simp add: ln_div)
  have b: "0 \<le> ln (541 / 525 :: real)" by simp
  show ?thesis using ln_twenty a b by linarith
qed

lemma dist_B_eq:
  "dist_to (logLpi_of_tail [ln (1 / 20)] 1 (1 / 25)) [ln (1 / 20), ln (1 / 20)]
     = ln (541 / 525) - 1 - ln (1 / 20)"
  using offset_B by (simp add: projection_B_offset dist_to_def linalg_norm_def)

lemma project_B2:
  "project_to_barrier2
       (fixed_external (converges_only_at [ln (1 / 20)]) converged (Some U_A) [1, 1] (1 / 2))
       (map ln (p_L0 params_B)) (p_delta params_B) (p_Rup params_B)
     = Inr (logLpi_of_tail [ln (1 / 20)] 1 (1 / 25))"
  by (simp add: project_to_barrier2_def fixed_external_def converges_only_at_def converged_def
                params_B_fields)

lemma step_B2_first:
  "step (fixed_external (converges_only_at [ln (1 / 20)]) converged (Some U_A) [1, 1] (1 / 2))
        params_B U_A (map ln (p_L0 params_B)) ()
     = Inr (Continue state_B1, ())"
proof -
  let ?ext = "fixed_external (converges_only_at [ln (1 / 20)]) converged (Some U_A) [1, 1] (1 / 2)"
  define D where "D = ln (541 / 525) - 1 - ln (1 / 20 :: real)"
  have D: "1 \<le> D" unfolding D_def by (rule offset_B)
  have x: "map ln (p_L0 params_B) = [ln (1 / 20), ln (1 / 20)]"
    by (simp add: params_B_fields)
  have l: "0 < lambda_k params_B" "lambda_k params_B \<le> 1 / 2"
    using lambda_k_B_small by (simp_all add: lambda_k_B)
  have "lambda_k params_B / (D + lambda_k params_B) \<le> 1 / 2"
    using D l by (simp add: field_simps)
  then have nk: "\<not> (1 / 2 < lambda_k params_B / (D + lambda_k params_B))" by simp
  have r: "random_rand ?ext () = (1 / 2, ())" "random_choice ?ext 2 () = ([1, 1], ())"
    by (simp_all add: fixed_external_def)
  have pull: "map2 (+) [ln (1 / 20), ln (1 / 20)]
                (map (\<lambda>d. lambda_k params_B / D * d)
                   (map2 (-) (logLpi_of_tail [ln (1 / 20)] 1 (1 / 25)) [ln (1 / 20), ln (1 / 20)]))
              = [ln (1 / 20) + lambda_k params_B, ln (1 / 20)]"
    using D by (simp add: projection_B_offset D_def [symmetric])
  have eu: "euler_update ?ext params_B U_A (drift_vec params_B [ln (1 / 20), ln (1 / 20)])
              [ln (1 / 20) + lambda_k params_B, ln (1 / 20)] ()
            = (state_B1, ())"
    by (simp add: euler_update_def params_B_fields(1) r drift_vec_B diffusion_B state_B1_def)
  have "boundary_zone ?ext params_B U_A (map ln (p_L0 params_B)) () = Inr (Continue state_B1, ())"
    unfolding boundary_zone_cases [OF project_B2]
    unfolding Let_def x dist_B_eq D_def [symmetric] r
    unfolding pull
    using nk D by (simp add: eu)
  then show ?thesis
    by (simp only: step_breached [OF valid_params_B breached_B])
qed

lemma state_B1_lower:
  "list_all2 (\<le>) [ln (1 / 20) - 1 / 400, ln (1 / 20) - 1 / 400] state_B1"
proof -
  have l: "0 \<le> lambda_k params_B" by (simp add: lambda_k_B)
  have a: "0 \<le> 1 / 10 * sqrt (1 / 2) * (1 + exp (- (1 / 10) :: real))"
    by (intro mult_nonneg_nonneg add_nonneg_nonneg) simp_all
  have b: "0 \<le> 1 / 10 * sqrt (1 / 2) * sqrt (1 - (exp (- (1 / 10) :: real))\<^sup>2)"
    using r_bounds(2) by (intro mult_nonneg_nonneg) simp_all
  have c: "0 \<le> (exp (- (1 / 10) :: real) + 1) / 4200" by (simp add: add_nonneg_nonneg)
  have i0: "ln (1 / 20) - 1 / 400
              \<le> ln (1 / 20) + lambda_k params_B + (1 / 4200 - 1 / 400)
                  + 1 / 10 * sqrt (1 / 2) * (1 + exp (- (1 / 10)))"
    using l a by linarith
  have i1: "ln (1 / 20) - 1 / 400
              \<le> ln (1 / 20) + ((exp (- (1 / 10)) + 1) / 4200 - 1 / 400)
                  + 1 / 10 * sqrt (1 / 2) * sqrt (1 - (exp (- (1 / 10)))\<^sup>2)"
    using b c by linarith
  show ?thesis
    unfolding state_B1_def by (simp only: list_all2_Cons list_all2_Nil i0 i1 simp_thms)
qed

lemma swap_rate_state_B1: "p_Rup params_B \<le> R_swap state_B1 (p_delta params_B)"
proof -
  define c where "c = 1 / 20 * exp (- (1 / 400) :: real)"
  have c: "0 < c" by (simp add: c_def)
  have "ln c = ln (1 / 20) + ln (exp (- (1 / 400) :: real))"
    unfolding c_def using ln_mult [of "1 / 20 :: real" "exp (- (1 / 400))"] by simp
  then have lnc: "ln c = ln (1 / 20) - 1 / 400" by (simp only: ln_exp)
  have "1 + (- (1 / 400)) \<le> exp (- (1 / 400) :: real)" by (rule exp_ge_add_one_self)
  then have "1 / 25 \<le> c" by (simp add: c_def)
  also have "c = R_swap (replicate 2 (ln c)) 1"
    using R_swap_replicate [of 2 1 c] c by simp
  also have "\<dots> \<le> R_swap state_B1 1"
    using state_B1_lower by (intro R_swap_mono) (simp_all add: lnc eval_nat_numeral)
  finally show ?thesis by (simp add: params_B_fields)
qed









section \<open>The closed form of equation (6.13)\<close>

text \<open>
  For \<open>delta = 1\<close>, the value the notebook uses, the closed form with the subtraction inside
  the logarithm puts the reconstructed vector on the barrier, for every tail for which the
  argument of the logarithm is positive.
\<close>

lemma suffix_products_sum:
  "1 + sum_list (map (\<lambda>i. prod_list (drop i qs)) [0..<length qs]) = suffix_sum qs"
proof (induction qs)
  case Nil
  then show ?case by simp
next
  case (Cons q qs)
  have "[0..<Suc (length qs)] = 0 # [Suc 0..<Suc (length qs)]"
    by (rule upt_conv_Cons) simp
  then have "[0..<length (q # qs)] = 0 # map Suc [0..<length qs]"
    by (simp only: map_Suc_upt list.size(4)) simp
  then have "sum_list (map (\<lambda>i. prod_list (drop i (q # qs))) [0..<length (q # qs)])
               = prod_list (q # qs) + sum_list (map (\<lambda>i. prod_list (drop i qs)) [0..<length qs])"
    by (simp add: comp_def)
  then show ?case using Cons.IH by simp
qed

lemma annuity_as_suffix_sum:
  assumes "0 < c" "list_all (\<lambda>q. 0 < q) qs"
  shows "1 / c + sum_list (map (\<lambda>x. 1 / x) (cumprod_from c qs)) = suffix_sum qs / (c * prod_list qs)"
  using assms
proof (induction qs arbitrary: c)
  case Nil
  then show ?case by simp
next
  case (Cons q qs)
  then have q: "0 < q" and rest: "list_all (\<lambda>q. 0 < q) qs" by simp_all
  have cq: "0 < c * q" using Cons.prems(1) q by simp
  have P: "0 < prod_list qs" using rest by (rule prod_list_pos_real)
  have "1 / c + sum_list (map (\<lambda>x. 1 / x) (cumprod_from c (q # qs)))
          = 1 / c + (1 / (c * q) + sum_list (map (\<lambda>x. 1 / x) (cumprod_from (c * q) qs)))"
    by simp
  also have "\<dots> = 1 / c + suffix_sum qs / (c * q * prod_list qs)"
    using Cons.IH [OF cq rest] by simp
  also have "\<dots> = (q * prod_list qs + suffix_sum qs) / (c * q * prod_list qs)"
    using Cons.prems(1) q P by (simp add: field_simps)
  finally show ?case by (simp add: mult.assoc)
qed

lemma closed_form_on_barrier:
  assumes "0 < (Rup * (1 + sum_list (map (\<lambda>i. prod_list (drop i (map (\<lambda>z. 1 + exp z) y)))
                                     [0..<length y])) + 1)
               / prod_list (map (\<lambda>z. 1 + exp z) y) - 1"
  shows "R_swap (spec_logL0 y 1 Rup # y) 1 = Rup"
proof -
  define qs where "qs = map (\<lambda>z. 1 + exp z) y"
  define S where "S = suffix_sum qs"
  define P where "P = prod_list qs"
  define a where "a = (Rup * S + 1) / P - 1"
  have pos: "list_all (\<lambda>q. 0 < q) qs"
    by (simp add: qs_def list_all_iff add_pos_pos)
  have P: "0 < P" unfolding P_def using pos by (rule prod_list_pos_real)
  have Ssum: "1 + sum_list (map (\<lambda>i. prod_list (drop i qs)) [0..<length qs]) = S"
    unfolding S_def by (rule suffix_products_sum)
  have a: "0 < a" using assms Ssum by (simp add: a_def qs_def P_def)
  have z0: "exp (spec_logL0 y 1 Rup) = a"
    using a Ssum by (simp add: spec_logL0_def Let_def a_def qs_def [symmetric] P_def comp_def)
  have c: "0 < 1 + a" using a by simp
  have cP: "(1 + a) * P = Rup * S + 1" using P by (simp add: a_def field_simps)
  have S: "0 < S"
  proof -
    have "0 \<le> suffix_sum qs - 1" using pos
    proof (induction qs)
      case Nil
      then show ?case by simp
    next
      case (Cons q qs)
      then have "0 < prod_list (q # qs)" by (intro prod_list_pos_real)
      with Cons show ?case by simp
    qed
    then show ?thesis by (simp add: S_def)
  qed
  have den: "sum_list (map (\<lambda>x. 1 / x) (cumprod ((1 + a) # qs))) = S / ((1 + a) * P)"
    using annuity_as_suffix_sum [OF c pos] by (simp add: cumprod_def S_def P_def)
  define W where "W = (1 + a) * P"
  have W: "0 < W" unfolding W_def using c P by simp
  have "1 - 1 / W = (W - 1) / W"
    using W by (simp add: field_simps)
  then have "1 - 1 / ((1 + a) * P) = ((1 + a) * P - 1) / ((1 + a) * P)"
    by (simp only: W_def)
  then have num: "1 - 1 / prod_list ((1 + a) # qs) = ((1 + a) * P - 1) / ((1 + a) * P)"
    by (simp add: P_def)
  have "R_swap (spec_logL0 y 1 Rup # y) 1
          = (1 - 1 / prod_list ((1 + a) # qs))
            / (1 * sum_list (map (\<lambda>x. 1 / x) (cumprod ((1 + a) # qs))))"
    by (simp add: R_swap_def Let_def z0 qs_def comp_def)
  also have "\<dots> = (((1 + a) * P - 1) / ((1 + a) * P)) / (S / ((1 + a) * P))"
    by (simp only: num den mult_1)
  also have "\<dots> = ((1 + a) * P - 1) / S"
    using c P by simp
  also have "\<dots> = Rup" using S by (simp add: cP)
  finally show ?thesis .
qed

section \<open>The Euler step\<close>

lemma length_drift_vec:
  assumes "length (p_sigma p) = p_N p" "length logL = p_N p"
  shows "length (drift_vec p logL) = p_N p"
  using assms by (simp add: drift_vec_def Let_def matvec_def drift_mat_def length_full_mat)

lemma length_diffusion:
  assumes "length (p_sigma p) = p_N p" "length U = p_N p"
  shows "length (diffusion p U xi) = p_N p"
  using assms by (simp add: diffusion_def matvec_def)

lemma euler_update_nth:
  assumes len: "length (p_sigma p) = p_N p" "length logL = p_N p" "length U = p_N p"
      and base: "length base = p_N p"
      and eu: "euler_update ext p U (drift_vec p logL) base g = (logL', g')"
  shows "g' = snd (random_choice ext (p_N p) g)"
    and "length logL' = p_N p"
    and "\<forall>i<p_N p. logL' ! i = base ! i + spec_drift p logL i
                         + diffusion p U (fst (random_choice ext (p_N p) g)) ! i"
proof -
  let ?xi = "fst (random_choice ext (p_N p) g)"
  have form: "logL' = map2 (+) base (map2 (+) (drift_vec p logL) (diffusion p U ?xi))"
    using eu by (rule euler_update_form)
  show "g' = snd (random_choice ext (p_N p) g)"
    using eu by (auto simp: euler_update_def Let_def split: prod.splits)
  have l: "length (drift_vec p logL) = p_N p" "length (diffusion p U ?xi) = p_N p"
    using len by (simp_all add: length_drift_vec length_diffusion)
  show "length logL' = p_N p" using l base by (simp add: form)
  show "\<forall>i<p_N p. logL' ! i = base ! i + spec_drift p logL i + diffusion p U ?xi ! i"
    using l base len(1,2) by (simp add: form drift_vec_nth spec_drift_def)
qed

lemma length_project_to_barrier2:
  "project_to_barrier2 ext x delta Rup = Inr z \<Longrightarrow> length z = length x"
  by (auto simp: project_to_barrier2_def Let_def logLpi_of_tail_def split: if_splits)

text \<open>
  Claim C6. Over one step each coordinate \<open>i\<close> of the log-forward vector is increased by
  the drift increment, which is \<open>h\<close> times row \<open>i\<close> of the drift matrix applied to \<open>phi\<close>,
  minus \<open>sigma[i]\<^sup>2 h / 2\<close>, where \<open>phi[j] = delta L[j] / (1 + delta L[j])\<close> is taken at the
  state before the step, and by the diffusion increment of the shocks drawn in the step.
  When the coarse or the fine check passes, the state the increments are added to is the
  state before the step; in the boundary zone, when the path is not knocked out, it is that
  state moved by \<open>lambda_k\<close> along the unit vector towards its projection, the drift still
  being taken at the state before the step. In both cases the step draws exactly one
  vector of \<open>N\<close> shocks (after the uniform draw, in the boundary zone). A step of the
  second run that lets the path continue is a step whose coarse or fine check passes, with
  the same increments. Conversely the path does continue whenever the coarse or the fine
  check passes (in both runs, with the same new state) and, in the boundary zone of the
  first run, whenever the projection is at a distance other than 0 and the uniform draw is
  not below the knock-out probability.
\<close>

theorem C6_drift_increment:
  assumes "length (p_sigma p) = p_N p" "length logL = p_N p" "length U = p_N p"
  shows "(\<forall>i<p_N p. drift_vec p logL ! i =
           h_of p * (\<Sum>j<p_N p. spec_DriftMatrix p i j
                       * (p_delta p * exp (logL ! j) / (1 + p_delta p * exp (logL ! j))))
           - 1 / 2 * (p_sigma p ! i)\<^sup>2 * h_of p)
       \<and> (\<forall>(ext :: 'g external) g logL' g'.
             step ext p U logL g = Inr (Continue logL', g')
             \<and> (coarse_check p logL \<or> fine_check p logL) \<longrightarrow>
               g' = snd (random_choice ext (p_N p) g) \<and> length logL' = p_N p
               \<and> (\<forall>i<p_N p. logL' ! i = logL ! i + spec_drift p logL i
                      + diffusion p U (fst (random_choice ext (p_N p) g)) ! i))
       \<and> (\<forall>(ext :: 'g external) g logL' g'.
             step ext p U logL g = Inr (Continue logL', g')
             \<and> \<not> coarse_check p logL \<and> \<not> fine_check p logL \<longrightarrow>
               (\<exists>logL_pi. project_to_barrier2 ext logL (p_delta p) (p_Rup p) = Inr logL_pi
                  \<and> dist_to logL_pi logL \<noteq> 0
                  \<and> g' = snd (random_choice ext (p_N p) (snd (random_rand ext g)))
                  \<and> length logL' = p_N p
                  \<and> (\<forall>i<p_N p. logL' ! i =
                        (logL ! i + lambda_k p / dist_to logL_pi logL * (logL_pi ! i - logL ! i))
                        + spec_drift p logL i
                        + diffusion p U (fst (random_choice ext (p_N p) (snd (random_rand ext g)))) ! i)))
       \<and> (\<forall>(ext :: 'g external) g logL' g'.
             step_half ext p U logL g = Inr (Continue_half logL', g') \<longrightarrow>
               g' = snd (random_choice ext (p_N p) g) \<and> length logL' = p_N p
               \<and> (\<forall>i<p_N p. logL' ! i = logL ! i + spec_drift p logL i
                      + diffusion p U (fst (random_choice ext (p_N p) g)) ! i))
       \<and> (\<forall>(ext :: 'g external) g.
             coarse_check p logL \<or> fine_check p logL \<longrightarrow>
               (\<exists>logL'. step ext p U logL g
                          = Inr (Continue logL', snd (random_choice ext (p_N p) g))
                        \<and> step_half ext p U logL g
                          = Inr (Continue_half logL', snd (random_choice ext (p_N p) g))))
       \<and> (\<forall>(ext :: 'g external) g logL_pi.
             \<not> coarse_check p logL \<and> \<not> fine_check p logL
             \<and> project_to_barrier2 ext logL (p_delta p) (p_Rup p) = Inr logL_pi
             \<and> dist_to logL_pi logL \<noteq> 0
             \<and> \<not> fst (random_rand ext g) < lambda_k p / (dist_to logL_pi logL + lambda_k p)
             \<longrightarrow>
               (\<exists>logL'. step ext p U logL g
                          = Inr (Continue logL',
                                 snd (random_choice ext (p_N p) (snd (random_rand ext g))))))"
proof -
  have A: "\<forall>i<p_N p. drift_vec p logL ! i =
           h_of p * (\<Sum>j<p_N p. spec_DriftMatrix p i j
                       * (p_delta p * exp (logL ! j) / (1 + p_delta p * exp (logL ! j))))
           - 1 / 2 * (p_sigma p ! i)\<^sup>2 * h_of p"
    using assms(1,2) by (simp add: drift_vec_nth)
  have B: "g' = snd (random_choice ext (p_N p) g) \<and> length logL' = p_N p
               \<and> (\<forall>i<p_N p. logL' ! i = logL ! i + spec_drift p logL i
                      + diffusion p U (fst (random_choice ext (p_N p) g)) ! i)"
    if a: "step ext p U logL g = Inr (Continue logL', g')
             \<and> (coarse_check p logL \<or> fine_check p logL)"
    for ext :: "'g external" and g logL' g'
  proof -
    from a have eu: "euler_update ext p U (drift_vec p logL) logL g = (logL', g')"
      by (auto simp: step_def split: if_splits prod.splits)
    from euler_update_nth [OF assms assms(2) eu] show ?thesis by (intro conjI)
  qed
  have C: "\<exists>logL_pi. project_to_barrier2 ext logL (p_delta p) (p_Rup p) = Inr logL_pi
                  \<and> dist_to logL_pi logL \<noteq> 0
                  \<and> g' = snd (random_choice ext (p_N p) (snd (random_rand ext g)))
                  \<and> length logL' = p_N p
                  \<and> (\<forall>i<p_N p. logL' ! i =
                        (logL ! i + lambda_k p / dist_to logL_pi logL * (logL_pi ! i - logL ! i))
                        + spec_drift p logL i
                        + diffusion p U (fst (random_choice ext (p_N p) (snd (random_rand ext g)))) ! i)"
    if a: "step ext p U logL g = Inr (Continue logL', g')
             \<and> \<not> coarse_check p logL \<and> \<not> fine_check p logL"
    for ext :: "'g external" and g logL' g'
  proof -
    from a have bz: "boundary_zone ext p U logL g = Inr (Continue logL', g')"
      by (auto simp: step_def)
    then obtain logL_pi where
      pr: "project_to_barrier2 ext logL (p_delta p) (p_Rup p) = Inr logL_pi"
      by (auto simp: boundary_zone_def split: sum.splits)
    define d where "d = dist_to logL_pi logL"
    define pulled where
      "pulled = map2 (+) logL (map (\<lambda>x. lambda_k p / d * x) (map2 (-) logL_pi logL))"
    have lpi: "length logL_pi = p_N p"
      using length_project_to_barrier2 [OF pr] assms(2) by simp
    from bz have d0: "d \<noteq> 0"
      and eu: "euler_update ext p U (drift_vec p logL) pulled (snd (random_rand ext g))
                 = (logL', g')"
      unfolding boundary_zone_cases [OF pr] Let_def d_def [symmetric] pulled_def [symmetric]
      by (auto split: if_splits)
    have lp: "length pulled = p_N p" using lpi assms(2) by (simp add: pulled_def)
    note r = euler_update_nth [OF assms lp eu]
    have pn: "pulled ! i = logL ! i + lambda_k p / d * (logL_pi ! i - logL ! i)"
      if "i < p_N p" for i
      using that lpi assms(2) by (simp add: pulled_def)
    show ?thesis
      using pr d0 r pn unfolding d_def by (intro exI [of _ logL_pi]) simp
  qed
  have D: "g' = snd (random_choice ext (p_N p) g) \<and> length logL' = p_N p
               \<and> (\<forall>i<p_N p. logL' ! i = logL ! i + spec_drift p logL i
                      + diffusion p U (fst (random_choice ext (p_N p) g)) ! i)"
    if a: "step_half ext p U logL g = Inr (Continue_half logL', g')"
    for ext :: "'g external" and g logL' g'
  proof -
    from a have eu: "euler_update ext p U (drift_vec p logL) logL g = (logL', g')"
      by (auto simp: step_half_def split: if_splits prod.splits sum.splits)
    from euler_update_nth [OF assms assms(2) eu] show ?thesis by (intro conjI)
  qed
  have E: "\<exists>logL'. step ext p U logL g
                          = Inr (Continue logL', snd (random_choice ext (p_N p) g))
                        \<and> step_half ext p U logL g
                          = Inr (Continue_half logL', snd (random_choice ext (p_N p) g))"
    if a: "coarse_check p logL \<or> fine_check p logL"
    for ext :: "'g external" and g
    using a by (auto simp: step_def step_half_def euler_update_def Let_def split: prod.splits)
  have F: "\<exists>logL'. step ext p U logL g
                          = Inr (Continue logL',
                                 snd (random_choice ext (p_N p) (snd (random_rand ext g))))"
    if a: "\<not> coarse_check p logL \<and> \<not> fine_check p logL
             \<and> project_to_barrier2 ext logL (p_delta p) (p_Rup p) = Inr logL_pi
             \<and> dist_to logL_pi logL \<noteq> 0
             \<and> \<not> fst (random_rand ext g) < lambda_k p / (dist_to logL_pi logL + lambda_k p)"
    for ext :: "'g external" and g logL_pi
  proof -
    from a have pr: "project_to_barrier2 ext logL (p_delta p) (p_Rup p) = Inr logL_pi" by simp
    from a have st: "step ext p U logL g = boundary_zone ext p U logL g"
      by (simp add: step_def)
    show ?thesis
      unfolding st boundary_zone_cases [OF pr] using a
      by (simp add: Let_def euler_update_def split: prod.splits)
  qed
  show ?thesis
    by (intro conjI;
        (rule A | (intro allI impI, (erule B | erule C | erule D | erule E | erule F))))
qed


theorem C6_drift_increment_witness:
  "drift_vec params_A (map ln (p_L0 params_A)) ! 1
     = 1 / 2 * (exp (- (1 / 10)) / 100 * (1 / 21) + 1 / 100 * (1 / 21)) - 1 / 400
   \<and> map2 (+) (map ln (p_L0 params_A))
            (map2 (+) (drift_vec params_A (map ln (p_L0 params_A)))
                      (diffusion params_A U_A [1, 1])) ! 1
     = ln (1 / 20) + (1 / 2 * (exp (- (1 / 10)) / 100 * (1 / 21) + 1 / 100 * (1 / 21)) - 1 / 400)
       + 1 / 10 * sqrt (1 / 2) * sqrt (1 - (exp (- (1 / 10)))\<^sup>2)
   \<and> state_B1 ! 0
     = (ln (1 / 20)
         + lambda_k params_B
           / dist_to (logLpi_of_tail [ln (1 / 20)] 1 (1 / 25)) [ln (1 / 20), ln (1 / 20)]
           * (logLpi_of_tail [ln (1 / 20)] 1 (1 / 25) ! 0 - ln (1 / 20)))
       + spec_drift params_B [ln (1 / 20), ln (1 / 20)] 0
       + diffusion params_B U_A [1, 1] ! 0
   \<and> step_half (fixed_external converged converged (Some U_A) [1, 1] (1 / 2)) params_A U_A
          (map ln (p_L0 params_A)) ()
     = Inr (Continue_half (map2 (+) (map ln (p_L0 params_A))
              (map2 (+) (drift_vec params_A (map ln (p_L0 params_A)))
                        (diffusion params_A U_A [1, 1]))), ())"
proof -
  let ?extA = "fixed_external converged converged (Some U_A) [1, 1] (1 / 2)"
  let ?extB = "fixed_external (converges_only_at [ln (1 / 20)]) converged (Some U_A) [1, 1] (1 / 2)"
  have lenA: "length (p_sigma params_A) = p_N params_A"
        "length (map ln (p_L0 params_A)) = p_N params_A" "length U_A = p_N params_A"
    by (simp_all add: params_A_def U_A_def)
  have lenB: "length (p_sigma params_B) = p_N params_B"
        "length (map ln (p_L0 params_B)) = p_N params_B" "length U_A = p_N params_B"
    by (simp_all add: params_B_fields U_A_def)
  note instA = C6_drift_increment [OF lenA]
  note instB = C6_drift_increment [OF lenB]
  have one: "1 < p_N params_A" by (simp add: params_A_def)
  have N2: "p_N params_A = 2" "p_sigma params_A = [1 / 10, 1 / 10]" "p_delta params_A = 1"
       "p_L0 params_A = [1 / 20, 1 / 20]"
    by (simp_all add: params_A_def)
  have "drift_vec params_A (map ln (p_L0 params_A)) ! 1 =
           h_of params_A * (\<Sum>j<p_N params_A. spec_DriftMatrix params_A 1 j
              * (p_delta params_A * exp (map ln (p_L0 params_A) ! j)
                 / (1 + p_delta params_A * exp (map ln (p_L0 params_A) ! j))))
           - 1 / 2 * (p_sigma params_A ! 1)\<^sup>2 * h_of params_A"
    using instA [THEN conjunct1] one by blast
  then have a: "drift_vec params_A (map ln (p_L0 params_A)) ! 1
     = 1 / 2 * (exp (- (1 / 10)) / 100 * (1 / 21) + 1 / 100 * (1 / 21)) - 1 / 400"
    by (simp add: N2 h_of_A spec_DriftMatrix_def rho_A lessThan_Suc eval_nat_numeral
                  power2_eq_square)
  have sdA: "spec_drift params_A (map ln (p_L0 params_A)) 1
     = 1 / 2 * (exp (- (1 / 10)) / 100 * (1 / 21) + 1 / 100 * (1 / 21)) - 1 / 400"
    by (simp add: spec_drift_def N2 h_of_A spec_DriftMatrix_def rho_A lessThan_Suc
                  eval_nat_numeral power2_eq_square)
  have rA: "random_choice ?extA (p_N params_A) () = ([1, 1], ())"
    by (simp add: fixed_external_def N2)
  have "\<forall>i<p_N params_A.
          map2 (+) (map ln (p_L0 params_A))
            (map2 (+) (drift_vec params_A (map ln (p_L0 params_A)))
                      (diffusion params_A U_A [1, 1])) ! i
          = map ln (p_L0 params_A) ! i + spec_drift params_A (map ln (p_L0 params_A)) i
            + diffusion params_A U_A (fst (random_choice ?extA (p_N params_A) ())) ! i"
    using instA [THEN conjunct2, THEN conjunct1, rule_format,
                 OF conjI [OF step_A disjI1 [OF coarse_check_A]]]
    by (rule conjunct2 [THEN conjunct2])
  with one have "map2 (+) (map ln (p_L0 params_A))
            (map2 (+) (drift_vec params_A (map ln (p_L0 params_A)))
                      (diffusion params_A U_A [1, 1])) ! 1
          = map ln (p_L0 params_A) ! 1 + spec_drift params_A (map ln (p_L0 params_A)) 1
            + diffusion params_A U_A (fst (random_choice ?extA (p_N params_A) ())) ! 1"
    by blast
  then have b: "map2 (+) (map ln (p_L0 params_A))
            (map2 (+) (drift_vec params_A (map ln (p_L0 params_A)))
                      (diffusion params_A U_A [1, 1])) ! 1
     = ln (1 / 20) + (1 / 2 * (exp (- (1 / 10)) / 100 * (1 / 21) + 1 / 100 * (1 / 21)) - 1 / 400)
       + 1 / 10 * sqrt (1 / 2) * sqrt (1 - (exp (- (1 / 10)))\<^sup>2)"
    unfolding sdA rA by (simp add: diffusion_A) (simp add: N2)
  have xB: "map ln (p_L0 params_B) = [ln (1 / 20), ln (1 / 20)]"
    by (simp add: params_B_fields)
  have rB: "random_choice ?extB (p_N params_B) (snd (random_rand ?extB ())) = ([1, 1], ())"
    by (simp add: fixed_external_def params_B_fields)
  have zero: "0 < p_N params_B" by (simp add: params_B_fields)
  obtain logL_pi where
    pr: "project_to_barrier2 ?extB (map ln (p_L0 params_B)) (p_delta params_B) (p_Rup params_B)
           = Inr logL_pi"
    and nth: "\<forall>i<p_N params_B. state_B1 ! i =
                 (map ln (p_L0 params_B) ! i
                    + lambda_k params_B / dist_to logL_pi (map ln (p_L0 params_B))
                      * (logL_pi ! i - map ln (p_L0 params_B) ! i))
                 + spec_drift params_B (map ln (p_L0 params_B)) i
                 + diffusion params_B U_A
                     (fst (random_choice ?extB (p_N params_B) (snd (random_rand ?extB ())))) ! i"
    using instB [THEN conjunct2, THEN conjunct2, THEN conjunct1, rule_format,
                 OF conjI [OF step_B2_first conjI [OF breached_initial_state [OF valid_params_B breached_B]]]]
    by blast
  from pr have pi: "logL_pi = logLpi_of_tail [ln (1 / 20)] 1 (1 / 25)"
    by (simp add: project_B2)
  from nth zero have "state_B1 ! 0 =
                 (map ln (p_L0 params_B) ! 0
                    + lambda_k params_B / dist_to logL_pi (map ln (p_L0 params_B))
                      * (logL_pi ! 0 - map ln (p_L0 params_B) ! 0))
                 + spec_drift params_B (map ln (p_L0 params_B)) 0
                 + diffusion params_B U_A
                     (fst (random_choice ?extB (p_N params_B) (snd (random_rand ?extB ())))) ! 0"
    by blast
  then have c: "state_B1 ! 0
     = (ln (1 / 20)
         + lambda_k params_B
           / dist_to (logLpi_of_tail [ln (1 / 20)] 1 (1 / 25)) [ln (1 / 20), ln (1 / 20)]
           * (logLpi_of_tail [ln (1 / 20)] 1 (1 / 25) ! 0 - ln (1 / 20)))
       + spec_drift params_B [ln (1 / 20), ln (1 / 20)] 0
       + diffusion params_B U_A [1, 1] ! 0"
    unfolding rB pi xB by simp
  have d: "step_half ?extA params_A U_A (map ln (p_L0 params_A)) ()
     = Inr (Continue_half (map2 (+) (map ln (p_L0 params_A))
              (map2 (+) (drift_vec params_A (map ln (p_L0 params_A)))
                        (diffusion params_A U_A [1, 1]))), ())"
    using coarse_check_A
    by (simp add: step_half_def euler_update_def fixed_external_def) (simp add: params_A_def)
  from a b c d show ?thesis by (intro conjI)
qed

section \<open>The run on a barrier breached at time 0\<close>



section \<open>Zero volatilities\<close>

lemma zero_volatilities:
  assumes "valid_params p" "\<not> 0 < np_max (p_sigma p)"
  shows "np_max (p_sigma p) = 0" and "\<forall>i<p_N p. p_sigma p ! i = 0"
proof -
  have ne: "p_sigma p \<noteq> []" and nn: "list_all (\<lambda>s. 0 \<le> s) (p_sigma p)"
    and len: "length (p_sigma p) = p_N p"
    using assms(1) by (auto simp: valid_params_def)
  have "0 \<le> np_max (p_sigma p)" using ne nn by (rule np_max_nonneg)
  with assms(2) show m: "np_max (p_sigma p) = 0" by simp
  show "\<forall>i<p_N p. p_sigma p ! i = 0"
  proof (intro allI impI)
    fix i assume i: "i < p_N p"
    then have mem: "p_sigma p ! i \<in> set (p_sigma p)" using len by simp
    then have "p_sigma p ! i \<le> np_max (p_sigma p)" by (rule np_max_ge)
    moreover have "0 \<le> p_sigma p ! i" using nn mem by (simp add: list_all_iff)
    ultimately show "p_sigma p ! i = 0" using m by simp
  qed
qed

lemma zero_volatility_fine:
  assumes "valid_params p" "\<not> 0 < np_max (p_sigma p)" "length x = p_N p"
      and "R_swap x (p_delta p) < p_Rup p"
  shows "fine_check p x"
proof -
  have len: "length (p_sigma p) = p_N p"
    using assms(1) by (simp add: valid_params_def)
  note z = zero_volatilities [OF assms(1,2)]
  have pert: "logL_pert p x = x"
  proof (rule nth_equalityI)
    show "length (logL_pert p x) = length x"
      using assms(3) len by (simp add: length_logL_pert)
  next
    fix i assume "i < length (logL_pert p x)"
    then have i: "i < p_N p" using assms(3) len by (simp add: length_logL_pert)
    show "logL_pert p x ! i = x ! i"
      using z(2) i by (simp add: logL_pert_nth [OF assms(3) len i])
  qed
  show ?thesis using assms(4) by (simp add: fine_check_def pert)
qed

lemma zero_volatility_step:
  assumes "valid_params p" "\<not> 0 < np_max (p_sigma p)" "length U = p_N p" "length x = p_N p"
      and "R_swap x (p_delta p) < p_Rup p"
  shows "step ext p U x g = Inr (Continue x, snd (random_choice ext (p_N p) g))"
proof -
  have len: "length (p_sigma p) = p_N p"
    using assms(1) by (simp add: valid_params_def)
  note z = zero_volatilities [OF assms(1,2)]
  have fine: "fine_check p x" by (rule zero_volatility_fine [OF assms(1,2,4,5)])
  have dv: "\<forall>i<p_N p. drift_vec p x ! i = 0"
  proof (intro allI impI)
    fix i assume i: "i < p_N p"
    have "spec_DriftMatrix p i j = 0" for j
      using z(2) i by (simp add: spec_DriftMatrix_def)
    then show "drift_vec p x ! i = 0"
      using z(2) i by (simp add: drift_vec_nth [OF len assms(4) i])
  qed
  have df: "\<forall>i<p_N p. diffusion p U xi ! i = 0" for xi
    using z(2) len assms(3) by (simp add: diffusion_def matvec_def)
  have ls: "length (drift_vec p x) = p_N p" "length (diffusion p U xi) = p_N p" for xi
    using len assms(3,4) by (simp_all add: length_drift_vec length_diffusion)
  have add: "map2 (+) x (map2 (+) (drift_vec p x) (diffusion p U xi)) = x" for xi
  proof (rule nth_equalityI)
    show "length (map2 (+) x (map2 (+) (drift_vec p x) (diffusion p U xi))) = length x"
      using ls assms(4) by simp
  next
    fix i assume "i < length (map2 (+) x (map2 (+) (drift_vec p x) (diffusion p U xi)))"
    then have i: "i < p_N p" using ls assms(4) by simp
    then show "map2 (+) x (map2 (+) (drift_vec p x) (diffusion p U xi)) ! i = x ! i"
      using ls assms(4) dv df by simp
  qed
  have eu: "euler_update ext p U (drift_vec p x) x g = (x, snd (random_choice ext (p_N p) g))"
    by (simp add: euler_update_def add split: prod.split)
  show ?thesis using fine by (simp add: step_def eu)
qed

lemma zero_volatility_evolve:
  assumes "valid_params p" "\<not> 0 < np_max (p_sigma p)" "length U = p_N p" "length x = p_N p"
      and "R_swap x (p_delta p) < p_Rup p"
  shows "evolve ext p U k x g = Some (y, gk) \<Longrightarrow> y = x"
proof (induction k arbitrary: g)
  case 0
  then show ?case by simp
next
  case (Suc k)
  from Suc.prems
  have "evolve ext p U k x (snd (random_choice ext (p_N p) g)) = Some (y, gk)"
    by (simp add: zero_volatility_step [OF assms])
  then show ?case by (rule Suc.IH)
qed

lemma unbreached_zero_volatility_fine:
  assumes "valid_params p" "\<not> 0 < np_max (p_sigma p)" "length U = p_N p"
      and "R_swap (map ln (p_L0 p)) (p_delta p) < p_Rup p"
      and "evolve ext p U k (map ln (p_L0 p)) g = Some (x, gk)"
  shows "x = map ln (p_L0 p)" and "fine_check p x"
proof -
  have l0: "length (map ln (p_L0 p)) = p_N p"
    using assms(1) by (simp add: valid_params_def)
  show x: "x = map ln (p_L0 p)"
    using assms(5) by (rule zero_volatility_evolve [OF assms(1,2,3) l0 assms(4)])
  show "fine_check p x"
    unfolding x by (rule zero_volatility_fine [OF assms(1,2) l0 assms(4)])
qed


section \<open>A barrier just above the initial swap rate\<close>

lemma params_C_fields:
  "p_N params_C = 2" "p_T0 params_C = 1 / 2" "p_delta params_C = 1" "p_M params_C = 1"
  "p_K params_C = 1 / 100" "p_Rup params_C = 101 / 2000" "p_L0 params_C = [1 / 20, 1 / 20]"
  "p_sigma params_C = [1 / 10, 1 / 10]" "p_beta params_C = 1 / 10" "p_n_paths params_C = 1"
  by (simp_all add: params_C_def)

lemma valid_params_C: "valid_params params_C"
  by (simp add: valid_params_def params_C_fields)

lemma swap_rate_C: "R_swap (map ln (p_L0 params_C)) (p_delta params_C) = 1 / 20"
  using R_swap_replicate [of 2 1 "1 / 20"] by (simp add: params_C_fields eval_nat_numeral)

lemma unbreached_C: "R_swap (map ln (p_L0 params_C)) (p_delta params_C) < p_Rup params_C"
  by (simp add: swap_rate_C) (simp add: params_C_fields)

lemma h_of_C: "h_of params_C = 1 / 2"
  by (simp add: h_of_def params_C_fields)

lemma np_max_sigma_C: "np_max (p_sigma params_C) = 1 / 10"
  by (simp add: np_max_def params_C_fields)

lemma coarse_bound_C: "coarse_bound params_C = 43 / 400"
  by (simp add: coarse_bound_def np_max_sigma_C h_of_C Let_def power2_eq_square)
     (simp add: params_C_fields)

lemma lambda_k_C: "lambda_k params_C = lambda_k params_B"
  by (simp add: lambda_k_B) (simp add: lambda_k_def coarse_bound_C params_C_fields)

lemma ln_barrier_C: "ln (101 / 2000 :: real) \<le> ln (1 / 20) + 1 / 100"
proof -
  have "ln (101 / 2000 :: real) = ln (101 / 100) + ln (1 / 20)"
    using ln_mult [of "101 / 100 :: real" "1 / 20"] by simp
  moreover have "ln (101 / 100 :: real) \<le> 101 / 100 - 1" by (rule ln_le_minus_one) simp
  ultimately show ?thesis by simp
qed

lemma coarse_check_C: "\<not> coarse_check params_C (map ln (p_L0 params_C))"
  using ln_barrier_C
  by (simp add: coarse_check_def coarse_bound_C np_max_def params_C_fields)

lemma logL_pert_C:
  "logL_pert params_C (map ln (p_L0 params_C))
     = [ln (1 / 20 * (1 + 1 / 200 + 1 / 10)), ln (1 / 20 * (1 + 1 / 100 + 1 / 10 * sqrt (1 / 2)))]"
  by (simp add: logL_pert_def np_max_sigma_C h_of_C Let_def)
     (simp add: params_C_fields upt_rec)

lemma fine_check_C: "\<not> fine_check params_C (map ln (p_L0 params_C))"
proof -
  have s: "0 \<le> sqrt (1 / 2 :: real)" by simp
  have a: "ln (101 / 2000) \<le> ln (1 / 20 * (1 + 1 / 200 + 1 / 10) :: real)"
    by (subst ln_le_cancel_iff) simp_all
  have "(101 / 2000 :: real) \<le> 1 / 20 * (1 + 1 / 100 + 1 / 10 * sqrt (1 / 2))"
    using s by simp
  moreover have "(0 :: real) < 1 / 20 * (1 + 1 / 100 + 1 / 10 * sqrt (1 / 2))"
    using s by (simp add: add_pos_nonneg)
  ultimately have b: "ln (101 / 2000) \<le> ln (1 / 20 * (1 + 1 / 100 + 1 / 10 * sqrt (1 / 2)) :: real)"
    by (subst ln_le_cancel_iff) simp_all
  have "101 / 2000 = R_swap (replicate 2 (ln (101 / 2000))) 1"
    using R_swap_replicate [of 2 1 "101 / 2000"] by simp
  also have "\<dots> \<le> R_swap (logL_pert params_C (map ln (p_L0 params_C))) 1"
    unfolding logL_pert_C using a b by (intro R_swap_mono) (simp_all add: eval_nat_numeral)
  finally show ?thesis by (simp add: fine_check_def params_C_fields(3,6))
qed

lemma project_C:
  "project_to_barrier2 (fixed_external converged sl c xi u) (map ln (p_L0 params_C))
       (p_delta params_C) (p_Rup params_C)
     = Inr (logLpi_of_tail [ln (1 / 20)] 1 (101 / 2000))"
  by (simp add: project_to_barrier2_def fixed_external_def converged_def params_C_fields)

lemma projection_C_offset:
  "logLpi_of_tail [ln (1 / 20)] 1 (101 / 2000)
     = [ln (1 / 20) + (ln (44141 / 42000) - 1 - ln (1 / 20)), ln (1 / 20)]"
  by (simp add: logLpi_of_tail_def logL0_of_tail_def cumprod_def)

lemma offset_C: "1 \<le> ln (44141 / 42000) - 1 - ln (1 / 20 :: real)"
proof -
  have a: "ln (1 / 20 :: real) = - ln 20" by (simp add: ln_div)
  have b: "0 \<le> ln (44141 / 42000 :: real)" by simp
  show ?thesis using ln_twenty a b by linarith
qed

lemma dist_C_eq:
  "dist_to (logLpi_of_tail [ln (1 / 20)] 1 (101 / 2000)) [ln (1 / 20), ln (1 / 20)]
     = ln (44141 / 42000) - 1 - ln (1 / 20)"
  using offset_C by (simp add: projection_C_offset dist_to_def linalg_norm_def)

lemma rho_C: "rho params_C = [[1, exp (- (1 / 10))], [exp (- (1 / 10)), 1]]"
  by (simp add: rho_def times_of_def params_C_fields upt_rec)

lemma drift_vec_C:
  "drift_vec params_C [ln (1 / 20), ln (1 / 20)]
     = [1 / 4200 - 1 / 400, (exp (- (1 / 10)) + 1) / 4200 - 1 / 400]"
  by (simp add: drift_vec_def drift_mat_def full_mat_def outer_def tril_def rho_C matvec_def
                h_of_C params_C_fields power2_eq_square field_simps)

lemma diffusion_C:
  "diffusion params_C U_A [1, 1]
     = [1 / 10 * sqrt (1 / 2) * (1 + exp (- (1 / 10))),
        1 / 10 * sqrt (1 / 2) * sqrt (1 - (exp (- (1 / 10)))\<^sup>2)]"
  by (simp add: diffusion_def matvec_def h_of_C U_A_def params_C_fields)

lemma step_checks_C:
  "step ext params_C U (map ln (p_L0 params_C)) g
     = boundary_zone ext params_C U (map ln (p_L0 params_C)) g"
  using coarse_check_C fine_check_C by (simp add: step_def)

lemma step_C:
  "step (fixed_external converged converged (Some U_A) [1, 1] (1 / 2))
        params_C U_A (map ln (p_L0 params_C)) ()
     = Inr (Continue state_B1, ())"
proof -
  let ?ext = "fixed_external converged converged (Some U_A) [1, 1] (1 / 2)"
  define D where "D = ln (44141 / 42000) - 1 - ln (1 / 20 :: real)"
  have D: "1 \<le> D" unfolding D_def by (rule offset_C)
  have x: "map ln (p_L0 params_C) = [ln (1 / 20), ln (1 / 20)]"
    by (simp add: params_C_fields)
  have l: "0 < lambda_k params_C" "lambda_k params_C \<le> 1 / 2"
    using lambda_k_B_small by (simp_all add: lambda_k_C lambda_k_B)
  have "lambda_k params_C / (D + lambda_k params_C) \<le> 1 / 2"
    using D l by (simp add: field_simps)
  then have nk: "\<not> (1 / 2 < lambda_k params_C / (D + lambda_k params_C))" by simp
  have r: "random_rand ?ext () = (1 / 2, ())" "random_choice ?ext 2 () = ([1, 1], ())"
    by (simp_all add: fixed_external_def)
  have pull: "map2 (+) [ln (1 / 20), ln (1 / 20)]
                (map (\<lambda>d. lambda_k params_C / D * d)
                   (map2 (-) (logLpi_of_tail [ln (1 / 20)] 1 (101 / 2000))
                             [ln (1 / 20), ln (1 / 20)]))
              = [ln (1 / 20) + lambda_k params_C, ln (1 / 20)]"
    using D by (simp add: projection_C_offset D_def [symmetric])
  have eu: "euler_update ?ext params_C U_A (drift_vec params_C [ln (1 / 20), ln (1 / 20)])
              [ln (1 / 20) + lambda_k params_C, ln (1 / 20)] ()
            = (state_B1, ())"
    by (simp add: euler_update_def params_C_fields(1) r drift_vec_C diffusion_C state_B1_def
                  lambda_k_C)
  have "boundary_zone ?ext params_C U_A (map ln (p_L0 params_C)) () = Inr (Continue state_B1, ())"
    unfolding boundary_zone_cases [OF project_C]
    unfolding Let_def x dist_C_eq D_def [symmetric] r
    unfolding pull
    using nk D by (simp add: eu)
  then show ?thesis by (simp only: step_checks_C)
qed


section \<open>The divisors of the boundary zone on the reachable states\<close>

text \<open>
  Claim C10 says that a path that reaches the boundary zone and is not knocked out always has
  \<open>dist > 0\<close>, so that neither division divides by zero, and that the state reaching the
  boundary zone is never at distance 0 from its projection. As amended: let the uniform
  draw be below 1 and let \<open>x\<close> be a state that fails both checks, where either some
  volatility is positive (with \<open>h > 0\<close> and \<open>N \<ge> 1\<close>), or the parameters are valid, the
  barrier is above the initial swap rate (so the configuration is one the specification
  allows), the Cholesky factor has \<open>N\<close> rows and \<open>x\<close> is reached by a path from the initial
  state. Then \<open>lambda_k > 0\<close> and \<open>dist + lambda_k > 0\<close>, the boundary zone does not divide
  by zero, and a path that is not knocked out has \<open>dist > 0\<close>. A state at distance 0 from
  its projection can reach the boundary zone; it is then knocked out whatever the draw.
  (With all volatilities 0 and the barrier above the initial swap rate the state never
  moves and passes the fine check at every step, so the boundary zone is not reached at
  all.)
\<close>

theorem C10_divisor_positive:
  assumes "0 < np_max (p_sigma p) \<and> 0 < h_of p \<and> 1 \<le> p_N p
           \<or> valid_params p \<and> length U = p_N p
             \<and> R_swap (map ln (p_L0 p)) (p_delta p) < p_Rup p
             \<and> evolve ext p U k (map ln (p_L0 p)) g = Some (x, gk)"
      and "\<not> coarse_check p x" "\<not> fine_check p x"
      and "project_to_barrier2 ext x (p_delta p) (p_Rup p) = Inr logL_pi"
      and "fst (random_rand ext gk) < 1"
  shows "0 < lambda_k p
       \<and> 0 < dist_to logL_pi x + lambda_k p
       \<and> step ext p U x gk = boundary_zone ext p U x gk
       \<and> boundary_zone ext p U x gk \<noteq> Inl InvalidValue
       \<and> (\<forall>logL' g'. boundary_zone ext p U x gk = Inr (Continue logL', g')
             \<longrightarrow> 0 < dist_to logL_pi x)
       \<and> (dist_to logL_pi x = 0
             \<longrightarrow> boundary_zone ext p U x gk = Inr (Break, snd (random_rand ext gk)))"
proof -
  have pos: "0 < np_max (p_sigma p) \<and> 0 < h_of p \<and> 1 \<le> p_N p"
    using assms(1)
  proof
    assume "0 < np_max (p_sigma p) \<and> 0 < h_of p \<and> 1 \<le> p_N p"
    then show ?thesis .
  next
    assume b: "valid_params p \<and> length U = p_N p
             \<and> R_swap (map ln (p_L0 p)) (p_delta p) < p_Rup p
             \<and> evolve ext p U k (map ln (p_L0 p)) g = Some (x, gk)"
    then have v: "valid_params p" and lU: "length U = p_N p"
      and ub: "R_swap (map ln (p_L0 p)) (p_delta p) < p_Rup p"
      and ev: "evolve ext p U k (map ln (p_L0 p)) g = Some (x, gk)"
      by simp_all
    have "0 < np_max (p_sigma p)"
    proof (rule ccontr)
      assume n: "\<not> 0 < np_max (p_sigma p)"
      have "fine_check p x"
        using v n lU ub ev by (rule unbreached_zero_volatility_fine(2))
      with assms(3) show False by simp
    qed
    moreover have "0 < h_of p" using v by (rule valid_params_h)
    moreover have "1 \<le> p_N p" using v by (simp add: valid_params_def)
    ultimately show ?thesis by (intro conjI)
  qed
  then have s: "0 < np_max (p_sigma p)" and h: "0 < h_of p" and N: "1 \<le> p_N p"
    by simp_all
  have l: "0 < lambda_k p" using s h N by (rule lambda_k_pos)
  have st: "step ext p U x gk = boundary_zone ext p U x gk"
    using assms(2,3) by (simp add: step_def)
  note d = positive_volatility_divisors [OF s h N assms(5,4), of U]
  have z: "boundary_zone ext p U x gk = Inr (Break, snd (random_rand ext gk))"
    if "dist_to logL_pi x = 0"
    unfolding boundary_zone_cases [OF assms(4)] using that l assms(5) by (simp add: Let_def)
  from l st d z show ?thesis by (intro conjI impI) simp_all
qed

theorem C10_divisor_positive_witness:
  "valid_params params_C
   \<and> R_swap (map ln (p_L0 params_C)) (p_delta params_C) < p_Rup params_C
   \<and> \<not> coarse_check params_C (map ln (p_L0 params_C))
   \<and> \<not> fine_check params_C (map ln (p_L0 params_C))
   \<and> step (fixed_external converged converged (Some U_A) [1, 1] (1 / 2)) params_C U_A
          (map ln (p_L0 params_C)) ()
       = Inr (Continue state_B1, ())
   \<and> 0 < lambda_k params_C
   \<and> 0 < dist_to (logLpi_of_tail [ln (1 / 20)] 1 (101 / 2000)) (map ln (p_L0 params_C))"
proof -
  let ?ext = "fixed_external converged converged (Some U_A) [1, 1] (1 / 2)"
  have len: "length U_A = p_N params_C" by (simp add: U_A_def params_C_fields)
  have ev: "evolve ?ext params_C U_A 0 (map ln (p_L0 params_C)) ()
              = Some (map ln (p_L0 params_C), ())"
    by simp
  have u: "fst (random_rand ?ext ()) < 1" by (simp add: fixed_external_def)
  have hyp: "0 < np_max (p_sigma params_C) \<and> 0 < h_of params_C \<and> 1 \<le> p_N params_C
           \<or> valid_params params_C \<and> length U_A = p_N params_C
             \<and> R_swap (map ln (p_L0 params_C)) (p_delta params_C) < p_Rup params_C
             \<and> evolve ?ext params_C U_A 0 (map ln (p_L0 params_C)) ()
                 = Some (map ln (p_L0 params_C), ())"
    using valid_params_C len unbreached_C ev by (intro disjI2 conjI)
  note inst = C10_divisor_positive [OF hyp coarse_check_C fine_check_C project_C u]
  have bz: "boundary_zone ?ext params_C U_A (map ln (p_L0 params_C)) ()
              = Inr (Continue state_B1, ())"
    using step_C by (simp only: step_checks_C)
  have "0 < dist_to (logLpi_of_tail [ln (1 / 20)] 1 (101 / 2000)) (map ln (p_L0 params_C))"
    using inst bz by blast
  moreover have "0 < lambda_k params_C" using inst by (rule conjunct1)
  ultimately show ?thesis
    using valid_params_C unbreached_C coarse_check_C fine_check_C step_C by (intro conjI)
qed

section \<open>The result arrays in the second run\<close>

text \<open>A path knocked out in the second run leaves its entry of \<open>prices\<close> as it finds it.\<close>

lemma record_path_half_knocked_out:
  "pe_knocked_out pe \<Longrightarrow>
     prices (record_path_half p i pe a) = prices a
     \<and> payoffs (record_path_half p i pe a) = payoffs a
     \<and> discount_sums (record_path_half p i pe a) = discount_sums a
     \<and> exit_times (record_path_half p i pe a)
         = (exit_times a)[i := real (pe_exit_step pe) * h_of p]"
  by (simp add: record_path_half_def Let_def)

lemma simulate_path_C:
  "simulate_path (fixed_external converged converged (Some U_A) [1, 1] (1 / 2)) params_C U_A ()
     = Inr (\<lparr>pe_logL = state_B1, pe_knocked_out = False, pe_exit_step = 1\<rparr>, ())"
proof -
  have M: "p_M params_C = Suc 0" "p_sigma params_C \<noteq> []"
    by (simp_all add: params_C_fields)
  show ?thesis
    unfolding simulate_path_def M by (simp add: step_C) (simp add: params_C_fields)
qed

lemma step_half_C:
  "step_half (fixed_external converged converged (Some U_A) [1, 1] (1 / 2)) params_C U_A
        (map ln (p_L0 params_C)) ()
     = Inr (Break_half (logLpi_of_tail [ln (1 / 20)] 1 (101 / 2000)), ())"
  using coarse_check_C fine_check_C by (simp add: step_half_def project_C)

lemma simulate_path_half_C:
  "simulate_path_half (fixed_external converged converged (Some U_A) [1, 1] (1 / 2))
        params_C U_A ()
     = Inr (\<lparr>pe_logL = logLpi_of_tail [ln (1 / 20)] 1 (101 / 2000), pe_knocked_out = True,
             pe_exit_step = 0\<rparr>, ())"
proof -
  have M: "p_M params_C = Suc 0" "p_sigma params_C \<noteq> []"
    by (simp_all add: params_C_fields)
  show ?thesis
    unfolding simulate_path_half_def M by (simp add: step_half_C) (simp add: params_C_fields)
qed

lemma contribution_C_pos:
  "0 < spec_contribution params_C
         \<lparr>pe_logL = state_B1, pe_knocked_out = False, pe_exit_step = 1\<rparr>"
proof -
  obtain s0 s1 where s: "state_B1 = [s0, s1]" by (simp add: state_B1_def)
  have "1 / 25 \<le> R_swap state_B1 1"
    using swap_rate_state_B1 by (simp add: params_B_fields)
  then have pay: "0 < max (R_swap state_B1 1 - 1 / 100) 0" by simp
  have q: "0 < 1 / (1 + exp s0)" "0 < 1 / (1 + exp s1)"
    by (simp_all add: add_pos_pos)
  have "0 < 1 / (1 + exp s0) + 1 / (1 + exp s0) * (1 / (1 + exp s1))"
    using q by (intro add_pos_pos mult_pos_pos)
  then have ds: "0 < sum_list (cumprod (map (\<lambda>z. 1 / (1 + exp z)) state_B1))"
    by (simp add: s cumprod_def)
  have "0 < 1 / (1 + 1 / 20 :: real)" by simp
  with ds pay
  have "0 < 1 / (1 + 1 / 20) * sum_list (cumprod (map (\<lambda>z. 1 / (1 + exp z)) state_B1))
              * (max (R_swap state_B1 1 - 1 / 100) 0)"
    by (intro mult_pos_pos)
  then show ?thesis by (simp add: spec_contribution_def params_C_fields)
qed

lemma notebook_C:
  "notebook (fixed_external converged converged (Some U_A) [1, 1] (1 / 2)) params_C ()
     = Inr ((spec_contribution params_C
               \<lparr>pe_logL = state_B1, pe_knocked_out = False, pe_exit_step = 1\<rparr>, 1 / 2),
            (spec_contribution params_C
               \<lparr>pe_logL = state_B1, pe_knocked_out = False, pe_exit_step = 1\<rparr>, 0))"
proof -
  let ?ext = "fixed_external converged converged (Some U_A) [1, 1] (1 / 2)"
  let ?pe1 = "\<lparr>pe_logL = state_B1, pe_knocked_out = False, pe_exit_step = 1\<rparr>"
  let ?pe2 = "\<lparr>pe_logL = logLpi_of_tail [ln (1 / 20)] 1 (101 / 2000), pe_knocked_out = True,
               pe_exit_step = 0\<rparr>"
  have c: "cholesky_upper ?ext (rho params_C) = Some U_A"
    by (simp add: fixed_external_def)
  have idx: "[0..<p_n_paths params_C] = [0]" by (simp add: params_C_fields)
  define a where "a = record_path params_C 0 ?pe1 (zeros 1)"
  define a2 where "a2 = record_path_half params_C 0 ?pe2 a"
  have loop: "mc_loop ?ext params_C U_A [0..<p_n_paths params_C] (zeros (p_n_paths params_C)) ()
                = Inr (a, ())"
    unfolding idx by (simp add: simulate_path_C a_def params_C_fields)
  have loop2: "mc_loop_half ?ext params_C U_A [0..<p_n_paths params_C] a () = Inr (a2, ())"
    unfolding idx by (simp add: simulate_path_half_C a2_def)
  have z: "prices (zeros 1) = [] @ 0 # []" "exit_times (zeros 1) = [] @ 0 # []"
    by (simp_all add: zeros_def)
  have pa: "prices a = [spec_contribution params_C ?pe1]"
    using record_path_prices [OF z(1), of params_C ?pe1] by (simp add: a_def)
  have ea: "exit_times a = [1 / 2]"
    using record_path_exit_times [OF z(2), of params_C ?pe1] by (simp add: h_of_C a_def)
  have k: "pe_knocked_out ?pe2" by simp
  have pa2: "prices a2 = [spec_contribution params_C ?pe1]"
    using record_path_half_knocked_out [OF k, of params_C 0 a] by (simp add: a2_def pa)
  have ea2: "exit_times a2 = [0]"
    using record_path_half_knocked_out [OF k, of params_C 0 a] by (simp add: a2_def ea)
  have n: "p_M params_C \<noteq> 0" "p_L0 params_C \<noteq> []"
    by (simp_all add: params_C_fields)
  show ?thesis
    unfolding notebook_def
    by (simp add: n c loop loop2 pa ea pa2 ea2 np_mean_def)
qed

text \<open>
  Claim C7 says that in every run a knocked-out path contributes exactly 0 and the reported
  price is the mean contribution over all paths. The first run does so; the second run
  does not. On the valid configuration \<open>params_C\<close> (barrier above the initial swap rate, one
  path, one step) the only path survives the first run, with a positive contribution
  \<open>c\<close>, and is knocked out at step 0 of the second run. Its contribution to the second
  price is 0 by the claim, so the mean contribution is 0; but the second loop leaves
  \<open>prices[0] = c\<close> from the first run in place and the second result cell reports the
  price \<open>c > 0\<close> (and the mean exit time 0).
\<close>

theorem C7_second_run_keeps_first_run_prices:
  "valid_params params_C
   \<and> R_swap (map ln (p_L0 params_C)) (p_delta params_C) < p_Rup params_C
   \<and> simulate_path (fixed_external converged converged (Some U_A) [1, 1] (1 / 2)) params_C U_A ()
       = Inr (\<lparr>pe_logL = state_B1, pe_knocked_out = False, pe_exit_step = 1\<rparr>, ())
   \<and> simulate_path_half (fixed_external converged converged (Some U_A) [1, 1] (1 / 2))
         params_C U_A ()
       = Inr (\<lparr>pe_logL = logLpi_of_tail [ln (1 / 20)] 1 (101 / 2000), pe_knocked_out = True,
               pe_exit_step = 0\<rparr>, ())
   \<and> sum_list (map (spec_contribution params_C)
         [\<lparr>pe_logL = logLpi_of_tail [ln (1 / 20)] 1 (101 / 2000), pe_knocked_out = True,
           pe_exit_step = 0\<rparr>]) / real (p_n_paths params_C) = 0
   \<and> 0 < spec_contribution params_C
           \<lparr>pe_logL = state_B1, pe_knocked_out = False, pe_exit_step = 1\<rparr>
   \<and> notebook (fixed_external converged converged (Some U_A) [1, 1] (1 / 2)) params_C ()
       = Inr ((spec_contribution params_C
                 \<lparr>pe_logL = state_B1, pe_knocked_out = False, pe_exit_step = 1\<rparr>, 1 / 2),
              (spec_contribution params_C
                 \<lparr>pe_logL = state_B1, pe_knocked_out = False, pe_exit_step = 1\<rparr>, 0))"
proof -
  have "sum_list (map (spec_contribution params_C)
         [\<lparr>pe_logL = logLpi_of_tail [ln (1 / 20)] 1 (101 / 2000), pe_knocked_out = True,
           pe_exit_step = 0\<rparr>]) / real (p_n_paths params_C) = 0"
    by (simp add: spec_contribution_def)
  with valid_params_C unbreached_C simulate_path_C simulate_path_half_C contribution_C_pos
       notebook_C
  show ?thesis by (intro conjI)
qed

end
